theory Spec2Isabelle
  imports Main "HOL-Library.Word"
begin

section \<open>Errors\<close>

text \<open>
  Go errors are values. \<open>FeatureInactive\<close> is the sentinel
  \<^verbatim>\<open>var featureInactive = errors.New("feature is not active")\<close>, which the handlers
  recognise with \<^verbatim>\<open>errors.Is\<close>; \<open>ErrorsNew s\<close> is any other \<^verbatim>\<open>errors.New(s)\<close>;
  \<open>StoreError s\<close> is an error returned by the database driver (query, scan, exec, begin,
  commit). \<open>None\<close> of type \<open>error option\<close> is Go's \<^verbatim>\<open>nil\<close> error.
\<close>

datatype error = FeatureInactive | ErrorsNew string | StoreError string

fun Error :: "error \<Rightarrow> string" where
  "Error FeatureInactive = ''feature is not active''"
| "Error (ErrorsNew s) = s"
| "Error (StoreError s) = s"

section \<open>singleflight/main.go: the snapshot cache\<close>

text \<open>
  \<^verbatim>\<open>featureActiveCache.m\<close> is a \<^verbatim>\<open>map[string]bool\<close>. Reading a missing key of a
  Go map, and reading any key of the nil map the variable holds before the first refresh,
  gives the zero value \<^verbatim>\<open>false\<close>.
\<close>

type_synonym featureActiveCache = "string \<rightharpoonup> bool"

definition index_bool :: "(string \<rightharpoonup> bool) \<Rightarrow> string \<Rightarrow> bool" where
  "index_bool m k = (case m k of None \<Rightarrow> False | Some b \<Rightarrow> b)"

text \<open>
  What the database answers to one \<^verbatim>\<open>select name, active from features\<close>: the query
  itself may fail; each row delivered is scanned, and a scan may fail (the column
  \<^verbatim>\<open>active\<close> is nullable); the row iterator may report an error at its end.
\<close>

record features_result =
  query_err :: "error option"
  scans :: "(error + string \<times> bool) list"
  rows_err :: "error option"

text \<open>
  The callback of \<^verbatim>\<open>pgctx.Iter\<close> in \<^verbatim>\<open>updateFeatureActiveCache\<close>, run row by row on the
  local map \<^verbatim>\<open>m\<close>: a scan error is returned at once and ends the iteration.
\<close>

fun iter_features :: "(error + string \<times> bool) list \<Rightarrow> (string \<rightharpoonup> bool) \<Rightarrow> error + (string \<rightharpoonup> bool)" where
  "iter_features [] m = Inr m"
| "iter_features (Inl e # rs) m = Inl e"
| "iter_features (Inr (name, active) # rs) m = iter_features rs (m(name \<mapsto> active))"

text \<open>
  \<^verbatim>\<open>updateFeatureActiveCache\<close>: the returned error and the value of
  \<^verbatim>\<open>featureActiveCache.m\<close> afterwards.
\<close>

definition updateFeatureActiveCache ::
  "features_result \<Rightarrow> featureActiveCache \<Rightarrow> error option \<times> featureActiveCache" where
  "updateFeatureActiveCache r cache =
     (case query_err r of
        Some e \<Rightarrow> (Some e, cache)
      | None \<Rightarrow>
         (case iter_features (scans r) Map.empty of
            Inl e \<Rightarrow> (Some e, cache)
          | Inr m \<Rightarrow>
             (case rows_err r of
                Some e \<Rightarrow> (Some e, cache)
              | None \<Rightarrow> (None, m))))"

text \<open>
  The goroutine of \<^verbatim>\<open>startUpdateFeatureActiveCache\<close>: each event is one turn of its
  \<^verbatim>\<open>select\<close>. \<open>CtxDone\<close> ends the loop; \<open>After r\<close> is the two-second timer firing,
  with the database's answer to the refresh it starts. A failed refresh is logged and the
  loop goes on.
\<close>

datatype refresh_event = CtxDone | After features_result

fun refresh_loop :: "refresh_event list \<Rightarrow> featureActiveCache \<Rightarrow> featureActiveCache" where
  "refresh_loop [] cache = cache"
| "refresh_loop (CtxDone # es) cache = cache"
| "refresh_loop (After r # es) cache = refresh_loop es (snd (updateFeatureActiveCache r cache))"

text \<open>
  \<^verbatim>\<open>startUpdateFeatureActiveCache\<close>: one synchronous refresh; its error is returned and
  no goroutine is started; otherwise the goroutine runs on the events given.
\<close>

definition startUpdateFeatureActiveCache ::
  "features_result \<Rightarrow> refresh_event list \<Rightarrow> featureActiveCache \<Rightarrow> error option \<times> featureActiveCache" where
  "startUpdateFeatureActiveCache r0 es cache =
     (case updateFeatureActiveCache r0 cache of
        (Some e, cache') \<Rightarrow> (Some e, cache')
      | (None, cache') \<Rightarrow> (None, refresh_loop es cache'))"

text \<open>\<^verbatim>\<open>ensureFeatureActiveWithCache\<close>: it reads the map and nothing else.\<close>

definition ensureFeatureActiveWithCache :: "featureActiveCache \<Rightarrow> string \<Rightarrow> error option" where
  "ensureFeatureActiveWithCache cache feature =
     (let active = index_bool cache feature
      in if \<not> active then Some FeatureInactive else None)"

text \<open>The handler of \<^verbatim>\<open>/f3\<close>: what it writes, or the status it fails with.\<close>

datatype response = Write string | HttpError string nat

definition StatusInternalServerError :: nat where
  "StatusInternalServerError = 500"

definition handle_f3 :: "featureActiveCache \<Rightarrow> response" where
  "handle_f3 cache =
     (case ensureFeatureActiveWithCache cache ''f'' of
        Some FeatureInactive \<Rightarrow> Write ''feature is not active''
      | Some e \<Rightarrow> HttpError (Error e) StatusInternalServerError
      | None \<Rightarrow> Write ''ok'')"

section \<open>stateful/main.go: data\<close>

type_synonym int64 = "64 word"

record callback =
  err :: "error option"

text \<open>
  \<open>doneCh\<close> is the field \<^verbatim>\<open>done chan<- callback\<close>: the identity of the channel
  \<^verbatim>\<open>addPointStateful\<close> made for this operation.
\<close>

record op =
  userID :: string
  amount :: int64
  doneCh :: nat

record txLog =
  txID :: string
  userID :: string
  amount :: int64

text \<open>
  The two tables. \<^verbatim>\<open>user_points\<close> has the primary key \<^verbatim>\<open>user_id\<close>, so it is a map;
  \<^verbatim>\<open>point_txs\<close> is the list of its rows in insertion order (the column
  \<^verbatim>\<open>created_at\<close> is left out).
\<close>

record store =
  user_points :: "string \<rightharpoonup> int64"
  point_txs :: "txLog list"

text \<open>\<^verbatim>\<open>state[userID]\<close> on a \<^verbatim>\<open>map[string]int64\<close>: a missing key reads as \<^verbatim>\<open>0\<close>.\<close>

definition index_int64 :: "(string \<rightharpoonup> int64) \<Rightarrow> string \<Rightarrow> int64" where
  "index_int64 m k = (case m k of None \<Rightarrow> 0 | Some b \<Rightarrow> b)"

text \<open>
  The writing statements of the program: the insert into \<^verbatim>\<open>point_txs\<close> of some rows, and
  the insert into \<^verbatim>\<open>user_points\<close> with \<^verbatim>\<open>on conflict (user_id) do update\<close> of some
  entries with distinct keys.
\<close>

datatype stmt = InsertPointTxs "txLog list" | UpsertUserPoints "string \<rightharpoonup> int64"

fun apply_stmt :: "stmt \<Rightarrow> store \<Rightarrow> store" where
  "apply_stmt (InsertPointTxs rows) s = s\<lparr>point_txs := point_txs s @ rows\<rparr>"
| "apply_stmt (UpsertUserPoints entries) s = s\<lparr>user_points := user_points s ++ entries\<rparr>"

section \<open>The database handle, contexts and transactions\<close>

text \<open>
  The packages \<^verbatim>\<open>pgctx\<close>, \<^verbatim>\<open>pgstmt\<close> and \<^verbatim>\<open>uuid\<close> are imported libraries and not among
  the sources; what the program uses of them is modelled below. A \<^verbatim>\<open>context.Context\<close> is
  immutable, and \<^verbatim>\<open>pgctx\<close> reads from it where to run a statement: a context made by
  \<^verbatim>\<open>pgctx.NewContext(ctx, db)\<close> carries the database handle (\<open>OnDB\<close> below), on which
  every statement commits by itself; the new context that \<^verbatim>\<open>pgctx.RunInTx\<close> hands to its
  body carries the open transaction (\<open>OnTx\<close>).

  The whole program state is one record: the committed tables, the statements of the open
  transaction that are not committed yet, the source of \<^verbatim>\<open>uuid.NewString\<close> (an arbitrary
  function of the number of calls made so far), the three slices of \<^verbatim>\<open>startBgWorker\<close>,
  and \<open>sent\<close>, the callbacks sent so far with the channel each went to.
\<close>

datatype ctx = OnDB | OnTx

record world =
  committed :: store
  pending :: "stmt list"
  uuid_src :: "nat \<Rightarrow> string"
  uuid_cnt :: nat
  buff :: "op list"
  callbacks :: "callback list"
  txLogs :: "txLog list"
  sent :: "(nat \<times> callback) list"

text \<open>
  What the database does to the calls of one transaction or one flush: each field, when
  not \<open>None\<close>, makes that call fail with the error (a lost connection, a timeout, a
  conflict on a primary key, a failed scan, ...).
\<close>

record faults =
  begin_err :: "error option"
  select_err :: "error option"
  insert_err :: "error option"
  upsert_err :: "error option"
  commit_err :: "error option"

definition tx_view :: "world \<Rightarrow> store" where
  "tx_view w = foldl (\<lambda>s q. apply_stmt q s) (committed w) (pending w)"

text \<open>The tables a statement run with context \<open>c\<close> reads.\<close>

definition visible :: "ctx \<Rightarrow> world \<Rightarrow> store" where
  "visible c w = (case c of OnDB \<Rightarrow> committed w | OnTx \<Rightarrow> tx_view w)"

text \<open>
  Modelled from the spec: the store operations \<^verbatim>\<open>upsert-balances\<close> and \<^verbatim>\<open>insert-tx-logs\<close>,
  and the single-row statements of \<^verbatim>\<open>addPoint\<close>, as \<^verbatim>\<open>pgctx.Exec\<close> and
  \<^verbatim>\<open>pgstmt\<close>'s \<^verbatim>\<open>ExecWith\<close> run them (the library is missing from the sources). A
  statement that fails changes nothing; one run on the database handle is committed at
  once; one run on the transaction waits for the commit.
\<close>

definition pgctx_Exec :: "ctx \<Rightarrow> error option \<Rightarrow> stmt \<Rightarrow> world \<Rightarrow> error option \<times> world" where
  "pgctx_Exec c fault q w =
     (case fault of
        Some e \<Rightarrow> (Some e, w)
      | None \<Rightarrow>
         (None, case c of
                  OnDB \<Rightarrow> w\<lparr>committed := apply_stmt q (committed w)\<rparr>
                | OnTx \<Rightarrow> w\<lparr>pending := pending w @ [q]\<rparr>))"

text \<open>
  Modelled from the spec: \<^verbatim>\<open>run-in-tx(body)\<close>, the body runs inside one atomic transaction
  and a failure rolls back all effects (\<^verbatim>\<open>pgctx.RunInTx\<close> is missing from the sources). A
  context that is in a transaction already runs the body in that one. Otherwise a
  transaction is begun, the body gets the context that carries it, and the transaction is
  committed when the body returns \<^verbatim>\<open>nil\<close> and rolled back when it returns an error. What
  is rolled back is what was run on the transaction. One attempt is modelled.
\<close>

definition RunInTx ::
  "ctx \<Rightarrow> faults \<Rightarrow> (ctx \<Rightarrow> world \<Rightarrow> error option \<times> world) \<Rightarrow> world \<Rightarrow> error option \<times> world" where
  "RunInTx c fl f w =
     (case c of
        OnTx \<Rightarrow> f OnTx w
      | OnDB \<Rightarrow>
         (case begin_err fl of
            Some e \<Rightarrow> (Some e, w)
          | None \<Rightarrow>
             (case f OnTx (w\<lparr>pending := []\<rparr>) of
                (Some e, w') \<Rightarrow> (Some e, w'\<lparr>pending := []\<rparr>)
              | (None, w') \<Rightarrow>
                 (case commit_err fl of
                    Some e \<Rightarrow> (Some e, w'\<lparr>pending := []\<rparr>)
                  | None \<Rightarrow> (None, w'\<lparr>committed := tx_view w', pending := []\<rparr>)))))"

text \<open>
  Modelled from the spec: the unique-id source (\<^verbatim>\<open>uuid.NewString\<close> is missing from the
  sources), taken as opaque: the next value of \<open>uuid_src\<close>. No theorem below needs the
  values to differ.
\<close>

definition uuid_NewString :: "world \<Rightarrow> string \<times> world" where
  "uuid_NewString w = (uuid_src w (uuid_cnt w), w\<lparr>uuid_cnt := Suc (uuid_cnt w)\<rparr>)"

section \<open>stateful/main.go: the stateless path\<close>

text \<open>
  \<^verbatim>\<open>addPoint(ctx, userID, amount)\<close>; the parameters are \<open>uid\<close> and \<open>amt\<close> here, the
  names \<open>userID\<close> and \<open>amount\<close> being those of the record fields. Its three statements
  run with the context \<open>ctx\<close> that \<^verbatim>\<open>RunInTx\<close> gives to the body. When the user has no
  row, \<^verbatim>\<open>sql.ErrNoRows\<close> is dropped and \<^verbatim>\<open>balance\<close> keeps its zero value; \<^verbatim>\<open>+=\<close> on
  \<^verbatim>\<open>int64\<close> wraps around and \<^verbatim>\<open><\<close> is the signed comparison.
\<close>

definition addPoint :: "ctx \<Rightarrow> faults \<Rightarrow> string \<Rightarrow> int64 \<Rightarrow> world \<Rightarrow> error option \<times> world" where
  "addPoint ctx0 fl uid amt =
     RunInTx ctx0 fl (\<lambda>ctx w.
       case select_err fl of
         Some e \<Rightarrow> (Some e, w)
       | None \<Rightarrow>
          (let balance = index_int64 (user_points (visible ctx w)) uid;
               balance = balance + amt
           in if balance <s 0 then (Some (ErrorsNew ''insufficient balance''), w)
              else
               (case pgctx_Exec ctx (upsert_err fl) (UpsertUserPoints [uid \<mapsto> balance]) w of
                  (Some e, w) \<Rightarrow> (Some e, w)
                | (None, w) \<Rightarrow>
                   (case uuid_NewString w of
                      (newID, w) \<Rightarrow>
                        pgctx_Exec ctx (insert_err fl)
                          (InsertPointTxs [\<lparr>txID = newID, userID = uid, amount = amt\<rparr>]) w))))"

section \<open>stateful/main.go: the background worker\<close>

definition buffSize :: nat where
  "buffSize = 7000"

text \<open>
  The three helper closures of \<^verbatim>\<open>startBgWorker\<close>. Each runs its statement with a
  context \<open>c\<close>; which context the source gives them is seen in \<open>flush_tx\<close> below.
  \<open>fault\<close> makes the query, or the scan of one of its rows, fail.
\<close>

definition restoreState ::
  "ctx \<Rightarrow> error option \<Rightarrow> string list \<Rightarrow> world \<Rightarrow> error + (string \<rightharpoonup> int64)" where
  "restoreState c fault keys w =
     (if length keys = 0 then Inr Map.empty
      else case fault of
             Some e \<Rightarrow> Inl e
           | None \<Rightarrow> Inr (user_points (visible c w) |` set keys))"

definition batchInsertTxLogs :: "ctx \<Rightarrow> error option \<Rightarrow> world \<Rightarrow> error option \<times> world" where
  "batchInsertTxLogs c fault w =
     (if length (txLogs w) = 0 then (None, w)
      else pgctx_Exec c fault (InsertPointTxs (txLogs w)) w)"

definition saveDirtyState ::
  "ctx \<Rightarrow> error option \<Rightarrow> (string \<rightharpoonup> int64) \<Rightarrow> string set \<Rightarrow> world \<Rightarrow> error option \<times> world" where
  "saveDirtyState c fault state dirty w =
     (if dirty = {} then (None, w)
      else pgctx_Exec c fault
             (UpsertUserPoints (\<lambda>u. if u \<in> dirty then Some (index_int64 state u) else None)) w)"

text \<open>
  One turn of the loop \<^verbatim>\<open>for _, p := range buff\<close> inside the transaction body, on the
  local map \<^verbatim>\<open>state\<close>, the local set \<^verbatim>\<open>dirty\<close> and the slices \<^verbatim>\<open>txLogs\<close> and
  \<^verbatim>\<open>callbacks\<close>; \<open>apply_ops\<close> is the loop.
\<close>

definition apply_op ::
  "op \<Rightarrow> (string \<rightharpoonup> int64) \<times> string set \<times> world \<Rightarrow> (string \<rightharpoonup> int64) \<times> string set \<times> world" where
  "apply_op p acc =
     (case acc of (state, dirty, w) \<Rightarrow>
        (let balance = index_int64 state (op.userID p);
             balance = balance + op.amount p
         in if balance <s 0
            then (state, dirty,
                  w\<lparr>callbacks := callbacks w @ [\<lparr>err = Some (ErrorsNew ''insufficient balance'')\<rparr>]\<rparr>)
            else
             (case uuid_NewString w of
                (newID, w) \<Rightarrow>
                  (state(op.userID p \<mapsto> balance), insert (op.userID p) dirty,
                   w\<lparr>txLogs := txLogs w @ [\<lparr>txID = newID, userID = op.userID p, amount = op.amount p\<rparr>],
                     callbacks := callbacks w @ [\<lparr>err = None\<rparr>]\<rparr>))))"

fun apply_ops ::
  "op list \<Rightarrow> (string \<rightharpoonup> int64) \<times> string set \<times> world \<Rightarrow> (string \<rightharpoonup> int64) \<times> string set \<times> world" where
  "apply_ops [] acc = acc"
| "apply_ops (p # ps) acc = apply_ops ps (apply_op p acc)"

text \<open>
  The call \<^verbatim>\<open>pgctx.RunInTx(ctx, func(ctx context.Context) error {...})\<close> of \<^verbatim>\<open>flush\<close>.
  \<open>ctx0\<close> is the parameter \<^verbatim>\<open>ctx\<close> of \<^verbatim>\<open>startBgWorker\<close>. The body's own parameter
  (\<open>ctx\<close> below) is not used: the body calls the three helpers, which are closures of
  \<^verbatim>\<open>startBgWorker\<close> and run their statements with \<open>ctx0\<close>.
\<close>

definition flush_tx :: "ctx \<Rightarrow> faults \<Rightarrow> world \<Rightarrow> error option \<times> world" where
  "flush_tx ctx0 fl w0 =
     (let restoreUserIDs = map op.userID (buff w0)
      in RunInTx ctx0 fl (\<lambda>ctx w.
           let dirty = {}
           in case restoreState ctx0 (select_err fl) restoreUserIDs w of
                Inl e \<Rightarrow> (Some e, w)
              | Inr state \<Rightarrow>
                 (case apply_ops (buff w) (state, dirty, w\<lparr>txLogs := [], callbacks := []\<rparr>) of
                    (state, dirty, w) \<Rightarrow>
                      (case batchInsertTxLogs ctx0 (insert_err fl) w of
                         (Some e, w) \<Rightarrow> (Some e, w)
                       | (None, w) \<Rightarrow>
                          (case saveDirtyState ctx0 (upsert_err fl) state dirty w of
                             (Some e, w) \<Rightarrow> (Some e, w)
                           | (None, w) \<Rightarrow> (None, w))))) w0)"

text \<open>
  \<^verbatim>\<open>flush\<close>. After an error it logs and returns. Otherwise
  \<^verbatim>\<open>for i, p := range buff { p.done <- callbacks[i] }\<close> sends the callbacks (the index is
  in range: \<open>flush_tx_OnDB_length\<close> below) and the buffer is emptied.
\<close>

definition flush :: "ctx \<Rightarrow> faults \<Rightarrow> world \<Rightarrow> world" where
  "flush ctx0 fl w =
     (if length (buff w) = 0 then w
      else case flush_tx ctx0 fl w of
             (Some e, w) \<Rightarrow> w
           | (None, w) \<Rightarrow>
               w\<lparr>sent := sent w @ zip (map op.doneCh (buff w)) (callbacks w), buff := []\<rparr>)"

text \<open>
  The \<^verbatim>\<open>for { select {...} }\<close> of \<^verbatim>\<open>startBgWorker\<close>, one event for each turn:
  \<open>WorkerDone\<close> is \<^verbatim>\<open>ctx.Done()\<close>, \<open>TimeAfter\<close> the 100 ms timer, \<open>OpChan p\<close> the
  receipt of \<open>p\<close> from \<^verbatim>\<open>opChan\<close>. The faults are what the database does to the flush
  that the turn may start.
\<close>

datatype event = WorkerDone | TimeAfter faults | OpChan op faults

fun bgWorker_loop :: "ctx \<Rightarrow> event list \<Rightarrow> world \<Rightarrow> world" where
  "bgWorker_loop ctx0 [] w = w"
| "bgWorker_loop ctx0 (WorkerDone # es) w = w"
| "bgWorker_loop ctx0 (TimeAfter fl # es) w = bgWorker_loop ctx0 es (flush ctx0 fl w)"
| "bgWorker_loop ctx0 (OpChan p fl # es) w =
     bgWorker_loop ctx0 es
       (let w = w\<lparr>buff := buff w @ [p]\<rparr>
        in if length (buff w) \<ge> buffSize then flush ctx0 fl w else w)"

definition startBgWorker :: "ctx \<Rightarrow> event list \<Rightarrow> world \<Rightarrow> world" where
  "startBgWorker ctx0 es w = bgWorker_loop ctx0 es (w\<lparr>buff := [], callbacks := [], txLogs := []\<rparr>)"

text \<open>
  The state in which \<^verbatim>\<open>main\<close> starts either load test: both tables truncated, no
  transaction open, nothing sent.
\<close>

definition init_world :: "(nat \<Rightarrow> string) \<Rightarrow> world" where
  "init_world src =
     \<lparr>committed = \<lparr>user_points = Map.empty, point_txs = []\<rparr>, pending = [],
      uuid_src = src, uuid_cnt = 0, buff = [], callbacks = [], txLogs = [], sent = []\<rparr>"

text \<open>The operations that the loop receives: those before the first \<open>WorkerDone\<close>.\<close>

fun received :: "event list \<Rightarrow> op list" where
  "received [] = []"
| "received (WorkerDone # es) = []"
| "received (TimeAfter fl # es) = received es"
| "received (OpChan p fl # es) = p # received es"

text \<open>The stateless load: calls of \<^verbatim>\<open>addPoint\<close>, one transaction after the other.\<close>

fun addPoints :: "ctx \<Rightarrow> (faults \<times> string \<times> int64) list \<Rightarrow> world \<Rightarrow> world" where
  "addPoints ctx0 [] w = w"
| "addPoints ctx0 ((fl, uid, amt) # cs) w = addPoints ctx0 cs (snd (addPoint ctx0 fl uid amt w))"

text \<open>The properties of the tables that the claims are about.\<close>

definition nonneg_balances :: "(string \<rightharpoonup> int64) \<Rightarrow> bool" where
  "nonneg_balances m = (\<forall>u b. m u = Some b \<longrightarrow> 0 \<le>s b)"

definition txs_sum :: "txLog list \<Rightarrow> string \<Rightarrow> int" where
  "txs_sum rows u = sum_list (map (\<lambda>t. sint (txLog.amount t)) (filter (\<lambda>t. txLog.userID t = u) rows))"

definition ledger_sum :: "store \<Rightarrow> string \<Rightarrow> int" where
  "ledger_sum s u = txs_sum (point_txs s) u"

definition balance_of :: "store \<Rightarrow> string \<Rightarrow> int" where
  "balance_of s u = sint (index_int64 (user_points s) u)"

definition ledger_consistent :: "store \<Rightarrow> bool" where
  "ledger_consistent s = (\<forall>u. ledger_sum s u = balance_of s u)"

text \<open>How many callbacks were sent to the channel \<open>ch\<close>.\<close>

definition count_sent :: "nat \<Rightarrow> world \<Rightarrow> nat" where
  "count_sent ch w = count_list (map fst (sent w)) ch"

section \<open>Inputs of the examples\<close>

definition no_faults :: faults where
  "no_faults = \<lparr>begin_err = None, select_err = None, insert_err = None, upsert_err = None, commit_err = None\<rparr>"

definition p1 :: op where
  "p1 = \<lparr>op.userID = ''u'', amount = 5, doneCh = 0\<rparr>"

definition p2 :: op where
  "p2 = \<lparr>op.userID = ''u'', amount = - 7, doneCh = 1\<rparr>"

definition p3 :: op where
  "p3 = \<lparr>op.userID = ''u'', amount = - 5, doneCh = 2\<rparr>"


definition p4 :: op where
  "p4 = \<lparr>op.userID = ''v'', amount = 10, doneCh = 4\<rparr>"

definition select_fails :: faults where
  "select_fails = no_faults\<lparr>select_err := Some (StoreError ''connection lost'')\<rparr>"

definition upsert_fails :: faults where
  "upsert_fails = no_faults\<lparr>upsert_err := Some (StoreError ''connection lost'')\<rparr>"

definition uuids :: "nat \<Rightarrow> string" where
  "uuids n = replicate n CHR ''a''"

section \<open>Properties of the worker's steps\<close>


lemma not_sless_zero: "(\<not> (x::int64) <s 0) = (0 \<le>s x)"
  by (simp add: word_sless_alt word_sle_eq not_less)

lemma nonneg_index: "nonneg_balances m \<Longrightarrow> 0 \<le>s index_int64 m u"
  by (auto simp: nonneg_balances_def index_int64_def split: option.splits)

lemma apply_op_world:
  "apply_op p (st, d, w) = (st', d', w') \<Longrightarrow>
     committed w' = committed w \<and> pending w' = pending w \<and> buff w' = buff w \<and> sent w' = sent w
     \<and> uuid_src w' = uuid_src w"
  by (auto simp: apply_op_def Let_def uuid_NewString_def split: if_splits)

lemma apply_ops_world:
  "apply_ops ps (st, d, w) = (st', d', w') \<Longrightarrow>
     committed w' = committed w \<and> pending w' = pending w \<and> buff w' = buff w \<and> sent w' = sent w
     \<and> uuid_src w' = uuid_src w"
proof (induction ps arbitrary: st d w)
  case Nil
  then show ?case by simp
next
  case (Cons p ps)
  obtain st1 d1 w1 where s: "apply_op p (st, d, w) = (st1, d1, w1)"
    by (cases "apply_op p (st, d, w)") auto
  with Cons.prems have "apply_ops ps (st1, d1, w1) = (st', d', w')" by simp
  from Cons.IH [OF this] apply_op_world [OF s] show ?case by simp
qed

lemma apply_op_nonneg:
  "apply_op p (st, d, w) = (st', d', w') \<Longrightarrow> nonneg_balances st \<Longrightarrow> nonneg_balances st'"
  by (auto simp: apply_op_def Let_def uuid_NewString_def nonneg_balances_def not_sless_zero split: if_splits)

lemma apply_ops_nonneg:
  "apply_ops ps (st, d, w) = (st', d', w') \<Longrightarrow> nonneg_balances st \<Longrightarrow> nonneg_balances st'"
proof (induction ps arbitrary: st d w)
  case Nil
  then show ?case by simp
next
  case (Cons p ps)
  obtain st1 d1 w1 where s: "apply_op p (st, d, w) = (st1, d1, w1)"
    by (cases "apply_op p (st, d, w)") auto
  with Cons.prems have "apply_ops ps (st1, d1, w1) = (st', d', w')" by simp
  from Cons.IH [OF this] apply_op_nonneg [OF s] Cons.prems(2) show ?case by simp
qed

lemma restoreState_nonneg:
  "restoreState c fault keys w = Inr st \<Longrightarrow> nonneg_balances (user_points (visible c w)) \<Longrightarrow> nonneg_balances st"
  by (auto simp: restoreState_def nonneg_balances_def restrict_map_def split: if_splits option.splits)

lemma batchInsertTxLogs_OnDB:
  "batchInsertTxLogs OnDB fault w = (r, w') \<Longrightarrow>
     user_points (committed w') = user_points (committed w) \<and> buff w' = buff w \<and> sent w' = sent w \<and> pending w' = pending w
     \<and> callbacks w' = callbacks w \<and> txLogs w' = txLogs w"
  by (auto simp: batchInsertTxLogs_def pgctx_Exec_def split: if_splits option.splits)

lemma saveDirtyState_OnDB_nonneg:
  "saveDirtyState OnDB fault st d w = (r, w') \<Longrightarrow> nonneg_balances st \<Longrightarrow>
     nonneg_balances (user_points (committed w)) \<Longrightarrow> nonneg_balances (user_points (committed w'))"
  by (auto simp: saveDirtyState_def pgctx_Exec_def nonneg_balances_def map_add_def index_int64_def
      split: if_splits option.splits)

lemma saveDirtyState_OnDB_frame:
  "saveDirtyState OnDB fault st d w = (r, w') \<Longrightarrow>
     buff w' = buff w \<and> sent w' = sent w \<and> callbacks w' = callbacks w \<and> txLogs w' = txLogs w \<and> pending w' = pending w"
  by (auto simp: saveDirtyState_def pgctx_Exec_def split: if_splits option.splits)

lemma tx_view_nil: "pending w = [] \<Longrightarrow> tx_view w = committed w"
  by (simp add: tx_view_def)


lemma apply_op_length:
  "apply_op p (st, d, w) = (st', d', w') \<Longrightarrow> length (callbacks w') = Suc (length (callbacks w))"
  by (auto simp: apply_op_def Let_def uuid_NewString_def split: if_splits)

lemma apply_ops_length:
  "apply_ops ps (st, d, w) = (st', d', w') \<Longrightarrow> length (callbacks w') = length (callbacks w) + length ps"
proof (induction ps arbitrary: st d w)
  case Nil
  then show ?case by simp
next
  case (Cons p ps)
  obtain st1 d1 w1 where s: "apply_op p (st, d, w) = (st1, d1, w1)"
    by (cases "apply_op p (st, d, w)") auto
  with Cons.prems have "apply_ops ps (st1, d1, w1) = (st', d', w')" by simp
  from Cons.IH [OF this] apply_op_length [OF s] show ?case by simp
qed

text \<open>
  The flush transaction run with the context that \<^verbatim>\<open>main\<close> passes to \<^verbatim>\<open>startBgWorker\<close>,
  step by step.
\<close>

lemma flush_tx_OnDB_unfold:
  "flush_tx OnDB fl w =
     (case begin_err fl of
        Some e \<Rightarrow> (Some e, w)
      | None \<Rightarrow>
         (case restoreState OnDB (select_err fl) (map op.userID (buff w)) (w\<lparr>pending := []\<rparr>) of
            Inl e \<Rightarrow> (Some e, w\<lparr>pending := []\<rparr>)
          | Inr state \<Rightarrow>
             (case apply_ops (buff w) (state, {}, w\<lparr>pending := [], txLogs := [], callbacks := []\<rparr>) of
                (state', dirty, w1) \<Rightarrow>
                  (case batchInsertTxLogs OnDB (insert_err fl) w1 of
                     (Some e, w2) \<Rightarrow> (Some e, w2\<lparr>pending := []\<rparr>)
                   | (None, w2) \<Rightarrow>
                      (case saveDirtyState OnDB (upsert_err fl) state' dirty w2 of
                         (Some e, w3) \<Rightarrow> (Some e, w3\<lparr>pending := []\<rparr>)
                       | (None, w3) \<Rightarrow>
                          (case commit_err fl of
                             Some e \<Rightarrow> (Some e, w3\<lparr>pending := []\<rparr>)
                           | None \<Rightarrow> (None, w3\<lparr>committed := tx_view w3, pending := []\<rparr>)))))))"
  by (simp add: flush_tx_def RunInTx_def Let_def split: option.splits sum.splits prod.splits)

lemma flush_tx_OnDB_frame:
  assumes "flush_tx OnDB fl w = (r, w')"
  shows "buff w' = buff w \<and> sent w' = sent w"
  using assms unfolding flush_tx_OnDB_unfold
  by (auto split: option.splits sum.splits prod.splits
      dest!: apply_ops_world batchInsertTxLogs_OnDB saveDirtyState_OnDB_frame)


lemma flush_tx_OnDB_length:
  assumes "flush_tx OnDB fl w = (None, w')"
  shows "length (callbacks w') = length (buff w)"
  using assms unfolding flush_tx_OnDB_unfold
  by (auto split: option.splits sum.splits prod.splits
      dest!: apply_ops_length batchInsertTxLogs_OnDB saveDirtyState_OnDB_frame)

lemma flush_tx_OnDB_nonneg:
  assumes "flush_tx OnDB fl w = (r, w')" and "nonneg_balances (user_points (committed w))"
  shows "nonneg_balances (user_points (committed w'))"
proof (cases "begin_err fl")
  case (Some e)
  with assms show ?thesis by (simp add: flush_tx_OnDB_unfold)
next
  case None
  let ?w0 = "w\<lparr>pending := []\<rparr>"
  show ?thesis
  proof (cases "restoreState OnDB (select_err fl) (map op.userID (buff w)) ?w0")
    case (Inl e)
    with None assms show ?thesis by (auto simp: flush_tx_OnDB_unfold)
  next
    case (Inr state)
    have st: "nonneg_balances state"
      using restoreState_nonneg [OF Inr] assms(2) by (simp add: visible_def)
    obtain state' dirty w1 where a:
      "apply_ops (buff w) (state, {}, w\<lparr>pending := [], txLogs := [], callbacks := []\<rparr>) = (state', dirty, w1)"
      by (metis prod_cases3)
    have st': "nonneg_balances state'" using apply_ops_nonneg [OF a st] .
    have c1: "committed w1 = committed w" and p1: "pending w1 = []"
      using apply_ops_world [OF a] by simp_all
    obtain r2 w2 where b: "batchInsertTxLogs OnDB (insert_err fl) w1 = (r2, w2)"
      by (cases "batchInsertTxLogs OnDB (insert_err fl) w1") auto
    have c2: "user_points (committed w2) = user_points (committed w)" and p2: "pending w2 = []"
      using batchInsertTxLogs_OnDB [OF b] c1 p1 by simp_all
    obtain r3 w3 where s: "saveDirtyState OnDB (upsert_err fl) state' dirty w2 = (r3, w3)"
      by (cases "saveDirtyState OnDB (upsert_err fl) state' dirty w2") auto
    have c3: "nonneg_balances (user_points (committed w3))"
      using saveDirtyState_OnDB_nonneg [OF s st'] c2 assms(2) by simp
    have p3: "pending w3 = []"
      using saveDirtyState_OnDB_frame [OF s] p2 by simp
    have "user_points (committed w') = user_points (committed w2) \<or> user_points (committed w') = user_points (committed w3)"
      using assms(1) None Inr a b s p3
      by (auto simp: flush_tx_OnDB_unfold tx_view_nil split: option.splits)
    with c2 c3 assms(2) show ?thesis by auto
  qed
qed

lemma flush_OnDB_nonneg:
  "nonneg_balances (user_points (committed w)) \<Longrightarrow> nonneg_balances (user_points (committed (flush OnDB fl w)))"
  by (auto simp: flush_def split: prod.splits option.splits dest: flush_tx_OnDB_nonneg)

lemma bgWorker_loop_nonneg:
  "nonneg_balances (user_points (committed w)) \<Longrightarrow>
     nonneg_balances (user_points (committed (bgWorker_loop OnDB es w)))"
proof (induction es arbitrary: w)
  case Nil
  then show ?case by simp
next
  case (Cons e es)
  show ?case
  proof (cases e)
    case WorkerDone
    with Cons.prems show ?thesis by simp
  next
    case (TimeAfter fl)
    with Cons.IH [OF flush_OnDB_nonneg [OF Cons.prems]] show ?thesis by simp
  next
    case (OpChan p fl)
    have "nonneg_balances (user_points (committed (w\<lparr>buff := buff w @ [p]\<rparr>)))"
      using Cons.prems by simp
    then have "nonneg_balances (user_points (committed
        (let w = w\<lparr>buff := buff w @ [p]\<rparr> in if length (buff w) \<ge> buffSize then flush OnDB fl w else w)))"
      using flush_OnDB_nonneg by (simp add: Let_def)
    from Cons.IH [OF this] OpChan show ?thesis by simp
  qed
qed

lemma addPoint_OnDB_unfold:
  "addPoint OnDB fl uid amt w =
     (case begin_err fl of
        Some e \<Rightarrow> (Some e, w)
      | None \<Rightarrow>
         (case select_err fl of
            Some e \<Rightarrow> (Some e, w\<lparr>pending := []\<rparr>)
          | None \<Rightarrow>
             (let balance = index_int64 (user_points (committed w)) uid + amt
              in if balance <s 0 then (Some (ErrorsNew ''insufficient balance''), w\<lparr>pending := []\<rparr>)
                 else
                  (case upsert_err fl of
                     Some e \<Rightarrow> (Some e, w\<lparr>pending := []\<rparr>)
                   | None \<Rightarrow>
                      (case insert_err fl of
                         Some e \<Rightarrow> (Some e, w\<lparr>pending := [], uuid_cnt := Suc (uuid_cnt w)\<rparr>)
                       | None \<Rightarrow>
                          (case commit_err fl of
                             Some e \<Rightarrow> (Some e, w\<lparr>pending := [], uuid_cnt := Suc (uuid_cnt w)\<rparr>)
                           | None \<Rightarrow>
                              (None, w\<lparr>committed :=
                                         \<lparr>user_points = (user_points (committed w))(uid \<mapsto> balance),
                                          point_txs = point_txs (committed w) @
                                            [\<lparr>txID = uuid_src w (uuid_cnt w), userID = uid, amount = amt\<rparr>]\<rparr>,
                                       pending := [], uuid_cnt := Suc (uuid_cnt w)\<rparr>)))))))"
  by (simp add: addPoint_def RunInTx_def Let_def pgctx_Exec_def uuid_NewString_def visible_def tx_view_def
      split: option.splits)


lemma addPoint_OnDB_nonneg:
  "nonneg_balances (user_points (committed w)) \<Longrightarrow>
     nonneg_balances (user_points (committed (snd (addPoint OnDB fl uid amt w))))"
  by (auto simp: addPoint_OnDB_unfold Let_def nonneg_balances_def not_sless_zero split: option.splits)

lemma addPoints_OnDB_nonneg:
  "nonneg_balances (user_points (committed w)) \<Longrightarrow>
     nonneg_balances (user_points (committed (addPoints OnDB cs w)))"
proof (induction cs arbitrary: w)
  case Nil
  then show ?case by simp
next
  case (Cons c cs)
  obtain fl uid amt where c: "c = (fl, uid, amt)" by (cases c) auto
  from Cons.IH [OF addPoint_OnDB_nonneg [OF Cons.prems]] c show ?case by simp
qed

lemma flush_OnDB_failed:
  "fst (flush_tx OnDB fl w) \<noteq> None \<Longrightarrow>
     buff (flush OnDB fl w) = buff w \<and> sent (flush OnDB fl w) = sent w"
  by (cases "flush_tx OnDB fl w") (auto simp: flush_def dest: flush_tx_OnDB_frame)

lemma map_fst_zip_same_length: "length xs = length ys \<Longrightarrow> map fst (zip xs ys) = xs"
  by (induction xs ys rule: list_induct2) auto

lemma flush_OnDB_conserves:
  "count_sent h (flush OnDB fl w) + count_list (map op.doneCh (buff (flush OnDB fl w))) h =
   count_sent h w + count_list (map op.doneCh (buff w)) h"
proof (cases "flush_tx OnDB fl w")
  case (Pair r w')
  note fr = flush_tx_OnDB_frame [OF Pair]
  show ?thesis
  proof (cases r)
    case None
    with Pair have len: "length (callbacks w') = length (buff w)"
      by (simp add: flush_tx_OnDB_length)
    have "map fst (zip (map op.doneCh (buff w')) (callbacks w')) = map op.doneCh (buff w)"
      using len fr by (simp add: map_fst_zip_same_length)
    with Pair None fr show ?thesis
      by (simp add: flush_def count_sent_def)
  next
    case (Some e)
    with Pair fr show ?thesis by (simp add: flush_def count_sent_def)
  qed
qed

lemma distinct_count_list: "distinct xs \<Longrightarrow> count_list xs x = (if x \<in> set xs then 1 else 0)"
  by (induction xs) auto

lemma bgWorker_loop_conserves:
  "count_sent h (bgWorker_loop OnDB es w) + count_list (map op.doneCh (buff (bgWorker_loop OnDB es w))) h =
   count_sent h w + count_list (map op.doneCh (buff w)) h + count_list (map op.doneCh (received es)) h"
proof (induction es arbitrary: w)
  case Nil
  then show ?case by simp
next
  case (Cons e es)
  show ?case
  proof (cases e)
    case WorkerDone
    then show ?thesis by simp
  next
    case (TimeAfter fl)
    with Cons.IH [of "flush OnDB fl w"] flush_OnDB_conserves [of h fl w] show ?thesis by simp
  next
    case (OpChan p fl)
    let ?w1 = "w\<lparr>buff := buff w @ [p]\<rparr>"
    let ?w2 = "if length (buff ?w1) \<ge> buffSize then flush OnDB fl ?w1 else ?w1"
    have "count_sent h ?w2 + count_list (map op.doneCh (buff ?w2)) h =
          count_sent h ?w1 + count_list (map op.doneCh (buff ?w1)) h"
      using flush_OnDB_conserves [of h fl ?w1] by simp
    also have "\<dots> = count_sent h w + count_list (map op.doneCh (buff w)) h + count_list [op.doneCh p] h"
      by (simp add: count_sent_def)
    finally have step: "count_sent h ?w2 + count_list (map op.doneCh (buff ?w2)) h =
       count_sent h w + count_list (map op.doneCh (buff w)) h + count_list [op.doneCh p] h" .
    have eq: "bgWorker_loop OnDB (e # es) w = bgWorker_loop OnDB es ?w2"
      using OpChan by (simp add: Let_def)
    have "received (e # es) = p # received es" using OpChan by simp
    then show ?thesis unfolding eq using Cons.IH [of ?w2] step by simp
  qed
qed

lemma bgWorker_loop_buff_received:
  "set (buff (bgWorker_loop OnDB es w)) \<subseteq> set (buff w) \<union> set (received es)"
proof (induction es arbitrary: w)
  case Nil
  then show ?case by simp
next
  case (Cons e es)
  have fl: "\<And>fl w. set (buff (flush OnDB fl w)) \<subseteq> set (buff w)"
  proof -
    fix fl w
    show "set (buff (flush OnDB fl w)) \<subseteq> set (buff w)"
      by (cases "flush_tx OnDB fl w") (auto simp: flush_def split: option.splits dest: flush_tx_OnDB_frame)
  qed
  show ?case
  proof (cases e)
    case WorkerDone
    then show ?thesis by simp
  next
    case (TimeAfter f)
    with Cons.IH [of "flush OnDB f w"] fl [of f w] show ?thesis by auto
  next
    case (OpChan p f)
    let ?w1 = "w\<lparr>buff := buff w @ [p]\<rparr>"
    let ?w2 = "if length (buff ?w1) \<ge> buffSize then flush OnDB f ?w1 else ?w1"
    have eq: "bgWorker_loop OnDB (e # es) w = bgWorker_loop OnDB es ?w2"
      using OpChan by (simp add: Let_def)
    have r: "received (e # es) = p # received es" using OpChan by simp
    have s2: "set (buff ?w2) \<subseteq> set (buff w) \<union> {p}"
      using fl [of f ?w1] by auto
    show ?thesis unfolding eq r using Cons.IH [of ?w2] s2 by auto
  qed
qed

lemma apply_ops_append: "apply_ops (ps @ qs) acc = apply_ops qs (apply_ops ps acc)"
  by (induction ps arbitrary: acc) auto

lemma apply_op_unfold:
  "apply_op p (state, dirty, w) =
     (let new = index_int64 state (op.userID p) + op.amount p
      in if new <s 0
         then (state, dirty,
               w\<lparr>callbacks := callbacks w @ [\<lparr>err = Some (ErrorsNew ''insufficient balance'')\<rparr>]\<rparr>)
         else (state(op.userID p \<mapsto> new), insert (op.userID p) dirty,
               w\<lparr>uuid_cnt := Suc (uuid_cnt w),
                 txLogs := txLogs w @
                   [\<lparr>txID = uuid_src w (uuid_cnt w), userID = op.userID p, amount = op.amount p\<rparr>],
                 callbacks := callbacks w @ [\<lparr>err = None\<rparr>]\<rparr>))"
  by (simp add: apply_op_def Let_def uuid_NewString_def)

lemma apply_ops_split:
  "apply_ops (ps @ p # qs) acc =
     (case apply_ops ps acc of
        (state, dirty, w) \<Rightarrow>
          (let new = index_int64 state (op.userID p) + op.amount p
           in apply_ops qs
                (if new <s 0
                 then (state, dirty,
                       w\<lparr>callbacks := callbacks w @ [\<lparr>err = Some (ErrorsNew ''insufficient balance'')\<rparr>]\<rparr>)
                 else (state(op.userID p \<mapsto> new), insert (op.userID p) dirty,
                       w\<lparr>uuid_cnt := Suc (uuid_cnt w),
                         txLogs := txLogs w @
                           [\<lparr>txID = uuid_src w (uuid_cnt w), userID = op.userID p, amount = op.amount p\<rparr>],
                         callbacks := callbacks w @ [\<lparr>err = None\<rparr>]\<rparr>))))"
  by (cases "apply_ops ps acc") (simp add: apply_ops_append apply_op_unfold Let_def)

lemma apply_op_callbacks:
  "apply_op p (st, d, w) = (st', d', w') \<Longrightarrow>
     callbacks w' = callbacks w @
       [\<lparr>err = if index_int64 st (op.userID p) + op.amount p <s 0
               then Some (ErrorsNew ''insufficient balance'') else None\<rparr>]"
  by (auto simp: apply_op_unfold Let_def split: if_splits)

lemma apply_ops_callbacks_prefix:
  "apply_ops ps (st, d, w) = (st', d', w') \<Longrightarrow> take (length (callbacks w)) (callbacks w') = callbacks w"
proof (induction ps arbitrary: st d w)
  case Nil
  then show ?case by simp
next
  case (Cons p ps)
  obtain st1 d1 w1 where s: "apply_op p (st, d, w) = (st1, d1, w1)"
    by (cases "apply_op p (st, d, w)") auto
  with Cons.prems have r: "apply_ops ps (st1, d1, w1) = (st', d', w')" by simp
  have "take (length (callbacks w1)) (callbacks w') = callbacks w1" using Cons.IH [OF r] .
  then have "take (length (callbacks w)) (take (length (callbacks w1)) (callbacks w')) = take (length (callbacks w)) (callbacks w1)"
    by simp
  then show ?case using apply_op_callbacks [OF s] by (simp add: min_def)
qed

lemma apply_ops_callback_at:
  assumes "apply_ops ps acc = (state, dirty, w)"
    and "apply_ops (ps @ p # qs) acc = (state', dirty', w')"
  shows "callbacks w' ! length (callbacks w) =
           \<lparr>err = if index_int64 state (op.userID p) + op.amount p <s 0
                  then Some (ErrorsNew ''insufficient balance'') else None\<rparr>"
proof -
  obtain st1 d1 w1 where s: "apply_op p (state, dirty, w) = (st1, d1, w1)"
    by (cases "apply_op p (state, dirty, w)") auto
  have r: "apply_ops qs (st1, d1, w1) = (state', dirty', w')"
    using assms s by (simp add: apply_ops_append)
  have c1: "callbacks w1 = callbacks w @
       [\<lparr>err = if index_int64 state (op.userID p) + op.amount p <s 0
               then Some (ErrorsNew ''insufficient balance'') else None\<rparr>]"
    using apply_op_callbacks [OF s] .
  have "take (length (callbacks w1)) (callbacks w') = callbacks w1"
    using apply_ops_callbacks_prefix [OF r] .
  then have "callbacks w' ! length (callbacks w) = callbacks w1 ! length (callbacks w)"
    using c1 by (metis length_append_singleton lessI nth_take)
  then show ?thesis using c1 by simp
qed

lemma apply_op_other_user:
  "apply_op p (st, d, w) = (st', d', w') \<Longrightarrow> op.userID p \<noteq> u \<Longrightarrow> index_int64 st' u = index_int64 st u"
  by (auto simp: apply_op_unfold Let_def index_int64_def split: if_splits)

lemma apply_ops_other_users:
  "apply_ops qs (st, d, w) = (st', d', w') \<Longrightarrow> \<forall>q \<in> set qs. op.userID q \<noteq> u \<Longrightarrow>
     index_int64 st' u = index_int64 st u"
proof (induction qs arbitrary: st d w)
  case Nil
  then show ?case by simp
next
  case (Cons p ps)
  obtain st1 d1 w1 where s: "apply_op p (st, d, w) = (st1, d1, w1)"
    by (cases "apply_op p (st, d, w)") auto
  with Cons.prems have r: "apply_ops ps (st1, d1, w1) = (st', d', w')" by simp
  have "index_int64 st' u = index_int64 st1 u" using Cons.IH [OF r] Cons.prems(2) by simp
  also have "\<dots> = index_int64 st u" using apply_op_other_user [OF s] Cons.prems(2) by simp
  finally show ?case .
qed

lemma flush_tx_OnDB_success:
  assumes "flush_tx OnDB fl w = (None, w')"
  shows "\<exists>state state' dirty w1.
           restoreState OnDB (select_err fl) (map op.userID (buff w)) w = Inr state \<and>
           apply_ops (buff w) (state, {}, w\<lparr>pending := [], txLogs := [], callbacks := []\<rparr>) = (state', dirty, w1) \<and>
           callbacks w' = callbacks w1 \<and> txLogs w' = txLogs w1 \<and>
           point_txs (committed w') = point_txs (committed w) @ txLogs w1 \<and>
           user_points (committed w') =
             user_points (committed w) ++ (\<lambda>u. if u \<in> dirty then Some (index_int64 state' u) else None)"
proof -
  from assms have b: "begin_err fl = None"
    by (auto simp: flush_tx_OnDB_unfold split: option.splits)
  have rs: "restoreState OnDB (select_err fl) (map op.userID (buff w)) (w\<lparr>pending := []\<rparr>) =
            restoreState OnDB (select_err fl) (map op.userID (buff w)) w"
    by (simp add: restoreState_def visible_def split: option.splits)
  from assms b obtain state where r: "restoreState OnDB (select_err fl) (map op.userID (buff w)) w = Inr state"
    by (auto simp: flush_tx_OnDB_unfold rs split: sum.splits)
  obtain state' dirty w1 where a:
    "apply_ops (buff w) (state, {}, w\<lparr>pending := [], txLogs := [], callbacks := []\<rparr>) = (state', dirty, w1)"
    by (metis prod_cases3)
  have c1: "committed w1 = committed w" and p1: "pending w1 = []"
    using apply_ops_world [OF a] by simp_all
  from assms b r a obtain w2 where i: "batchInsertTxLogs OnDB (insert_err fl) w1 = (None, w2)"
    by (auto simp: flush_tx_OnDB_unfold rs split: option.splits prod.splits)
  from assms b r a i obtain w3 where s: "saveDirtyState OnDB (upsert_err fl) state' dirty w2 = (None, w3)"
    by (auto simp: flush_tx_OnDB_unfold rs split: option.splits prod.splits)
  from assms b r a i s have w': "w' = w3\<lparr>committed := tx_view w3, pending := []\<rparr>"
    by (auto simp: flush_tx_OnDB_unfold rs split: option.splits prod.splits)
  have i2: "point_txs (committed w2) = point_txs (committed w) @ txLogs w1"
    "user_points (committed w2) = user_points (committed w)"
    "callbacks w2 = callbacks w1" "txLogs w2 = txLogs w1" "pending w2 = []"
    using i c1 p1 by (auto simp: batchInsertTxLogs_def pgctx_Exec_def split: if_splits option.splits)
  have s3: "point_txs (committed w3) = point_txs (committed w2)"
    "user_points (committed w3) =
       user_points (committed w2) ++ (\<lambda>u. if u \<in> dirty then Some (index_int64 state' u) else None)"
    "callbacks w3 = callbacks w2" "txLogs w3 = txLogs w2" "pending w3 = []"
    using s i2(5) by (auto simp: saveDirtyState_def pgctx_Exec_def map_add_def split: if_splits option.splits)
  have "tx_view w3 = committed w3" using s3(5) by (rule tx_view_nil)
  with w' i2 s3 r a show ?thesis by simp
qed

lemma flush_OnDB_succeeded:
  "flush_tx OnDB fl w = (None, w') \<Longrightarrow>
     buff (flush OnDB fl w) = [] \<and>
     sent (flush OnDB fl w) = sent w @ zip (map op.doneCh (buff w)) (callbacks w')"
  by (auto simp: flush_def dest: flush_tx_OnDB_frame)



lemma restoreState_missing:
  "restoreState c fault keys w = Inr state \<Longrightarrow> user_points (visible c w) uid = None \<Longrightarrow>
     index_int64 state uid = 0"
  by (auto simp: restoreState_def index_int64_def restrict_map_def split: if_splits option.splits)

lemma flush_tx_OnDB_callback_at:
  assumes f: "flush_tx OnDB fl w = (None, w')" and i: "i < length (buff w)"
  shows "\<exists>state0 state dirty w1.
           restoreState OnDB (select_err fl) (map op.userID (buff w)) w = Inr state0 \<and>
           apply_ops (take i (buff w)) (state0, {}, w\<lparr>pending := [], txLogs := [], callbacks := []\<rparr>) =
             (state, dirty, w1) \<and>
           callbacks w' ! i =
             \<lparr>err = if index_int64 state (op.userID (buff w ! i)) + op.amount (buff w ! i) <s 0
                    then Some (ErrorsNew ''insufficient balance'') else None\<rparr>"
proof -
  from flush_tx_OnDB_success [OF f] obtain state0 state1 dirty1 w2 where
    x: "restoreState OnDB (select_err fl) (map op.userID (buff w)) w = Inr state0"
       "apply_ops (buff w) (state0, {}, w\<lparr>pending := [], txLogs := [], callbacks := []\<rparr>) = (state1, dirty1, w2)"
       "callbacks w' = callbacks w2"
    by blast
  let ?acc = "(state0, {} :: string set, w\<lparr>pending := [], txLogs := [], callbacks := []\<rparr>)"
  obtain state dirty w1 where a: "apply_ops (take i (buff w)) ?acc = (state, dirty, w1)"
    by (metis prod_cases3)
  have sp: "buff w = take i (buff w) @ buff w ! i # drop (Suc i) (buff w)"
    using i by (rule id_take_nth_drop)
  have b: "apply_ops (take i (buff w) @ buff w ! i # drop (Suc i) (buff w)) ?acc = (state1, dirty1, w2)"
    using x(2) sp by simp
  have "length (callbacks w1) = i"
    using apply_ops_length [OF a] i by simp
  with apply_ops_callback_at [OF a b] x(1) x(3) a show ?thesis by auto
qed



lemma sint_add_accepted:
  fixes a b :: int64
  assumes "0 \<le>s a" and "\<not> a + b <s 0"
  shows "sint (a + b) = sint a + sint b"
proof -
  have a0: "0 \<le> sint a" using assms(1) by (simp add: word_sle_eq)
  have r0: "0 \<le> sint (a + b)" using assms(2) by (simp add: word_sless_alt)
  have e: "sint (a + b) = signed_take_bit 63 (sint a + sint b)"
    by (simp add: sint_word_ariths)
  have lo: "- (2 ^ 63) \<le> sint a + sint b"
    using a0 sint_ge [of b] by simp
  have hi: "sint a + sint b < 2 ^ 63"
  proof (rule ccontr)
    assume "\<not> sint a + sint b < 2 ^ 63"
    then have "2 ^ 63 \<le> sint a + sint b" by simp
    then have "signed_take_bit 63 (sint a + sint b) \<le> sint a + sint b - 2 ^ Suc 63"
      by (rule signed_take_bit_int_less_eq)
    moreover have "sint a + sint b < 2 ^ Suc 63"
      using sint_lt [of a] sint_lt [of b] by simp
    ultimately show False using r0 e by simp
  qed
  from lo hi have "signed_take_bit 63 (sint a + sint b) = sint a + sint b"
    by (rule signed_take_bit_int_eq_self)
  with e show ?thesis by simp
qed

lemma txs_sum_append: "txs_sum (xs @ ys) u = txs_sum xs u + txs_sum ys u"
  by (simp add: txs_sum_def)

lemma txs_sum_Nil: "txs_sum [] u = 0"
  by (simp add: txs_sum_def)

lemma addPoint_OnDB_consistent:
  assumes n: "nonneg_balances (user_points (committed w))"
    and c: "ledger_consistent (committed w)"
  shows "ledger_consistent (committed (snd (addPoint OnDB fl uid amt w)))"
proof -
  let ?b = "index_int64 (user_points (committed w)) uid"
  have acc: "sint (?b + amt) = sint ?b + sint amt" if "\<not> ?b + amt <s 0"
    using sint_add_accepted [OF nonneg_index [OF n] that] .
  have "ledger_consistent
          \<lparr>user_points = (user_points (committed w))(uid \<mapsto> ?b + amt),
           point_txs = point_txs (committed w) @ [\<lparr>txID = i, userID = uid, amount = amt\<rparr>]\<rparr>"
    if "\<not> ?b + amt <s 0" for i
    using c acc [OF that]
    by (auto simp: ledger_consistent_def ledger_sum_def balance_of_def txs_sum_def index_int64_def)
  with c show ?thesis
    by (auto simp: addPoint_OnDB_unfold Let_def split: option.splits)
qed

lemma apply_op_ledger:
  assumes "apply_op p (st, d, w) = (st', d', w')" and "nonneg_balances st"
  shows "\<exists>new. txLogs w' = txLogs w @ new \<and>
           (\<forall>u. sint (index_int64 st' u) = sint (index_int64 st u) + txs_sum new u) \<and>
           d \<subseteq> d' \<and> d' \<subseteq> insert (op.userID p) d \<and>
           (\<forall>u. u \<notin> d' \<longrightarrow> index_int64 st' u = index_int64 st u)"
proof (cases "index_int64 st (op.userID p) + op.amount p <s 0")
  case True
  with assms(1) have "txLogs w' = txLogs w @ []" "st' = st" "d' = d"
    by (auto simp: apply_op_unfold Let_def)
  then show ?thesis by (auto simp: txs_sum_Nil)
next
  case False
  let ?u = "op.userID p"
  let ?row = "\<lparr>txID = uuid_src w (uuid_cnt w), userID = ?u, amount = op.amount p\<rparr>"
  from False assms(1) have x: "txLogs w' = txLogs w @ [?row]"
    "st' = st(?u \<mapsto> index_int64 st ?u + op.amount p)" "d' = insert ?u d"
    by (auto simp: apply_op_unfold Let_def)
  have s: "sint (index_int64 st ?u + op.amount p) = sint (index_int64 st ?u) + sint (op.amount p)"
    using sint_add_accepted [OF nonneg_index [OF assms(2)] False] .
  have "\<forall>u. sint (index_int64 st' u) = sint (index_int64 st u) + txs_sum [?row] u"
    using s x(2) by (auto simp: index_int64_def txs_sum_def)
  moreover have "\<forall>u. u \<notin> d' \<longrightarrow> index_int64 st' u = index_int64 st u"
    using x by (auto simp: index_int64_def)
  ultimately show ?thesis using x by blast
qed

lemma apply_ops_ledger:
  assumes "apply_ops ps (st, d, w) = (st', d', w')" and "nonneg_balances st"
  shows "\<exists>new. txLogs w' = txLogs w @ new \<and>
           (\<forall>u. sint (index_int64 st' u) = sint (index_int64 st u) + txs_sum new u) \<and>
           d \<subseteq> d' \<and> d' \<subseteq> op.userID ` set ps \<union> d \<and>
           (\<forall>u. u \<notin> d' \<longrightarrow> index_int64 st' u = index_int64 st u)"
  using assms
proof (induction ps arbitrary: st d w)
  case Nil
  then show ?case by (auto simp: txs_sum_Nil)
next
  case (Cons p ps)
  obtain st1 d1 w1 where s: "apply_op p (st, d, w) = (st1, d1, w1)"
    by (cases "apply_op p (st, d, w)") auto
  with Cons.prems have r: "apply_ops ps (st1, d1, w1) = (st', d', w')" by simp
  have n1: "nonneg_balances st1" using apply_op_nonneg [OF s Cons.prems(2)] .
  from apply_op_ledger [OF s Cons.prems(2)] obtain new1 where
    a: "txLogs w1 = txLogs w @ new1"
       "\<forall>u. sint (index_int64 st1 u) = sint (index_int64 st u) + txs_sum new1 u"
       "d \<subseteq> d1" "d1 \<subseteq> insert (op.userID p) d"
       "\<forall>u. u \<notin> d1 \<longrightarrow> index_int64 st1 u = index_int64 st u"
    by blast
  from Cons.IH [OF r n1] obtain new2 where
    b: "txLogs w' = txLogs w1 @ new2"
       "\<forall>u. sint (index_int64 st' u) = sint (index_int64 st1 u) + txs_sum new2 u"
       "d1 \<subseteq> d'" "d' \<subseteq> op.userID ` set ps \<union> d1"
       "\<forall>u. u \<notin> d' \<longrightarrow> index_int64 st' u = index_int64 st1 u"
    by blast
  have "txLogs w' = txLogs w @ (new1 @ new2)" using a(1) b(1) by simp
  moreover have "\<forall>u. sint (index_int64 st' u) = sint (index_int64 st u) + txs_sum (new1 @ new2) u"
    using a(2) b(2) by (simp add: txs_sum_append)
  moreover have "d \<subseteq> d'" using a(3) b(3) by blast
  moreover have "d' \<subseteq> op.userID ` set (p # ps) \<union> d" using a(4) b(4) by auto
  moreover have "\<forall>u. u \<notin> d' \<longrightarrow> index_int64 st' u = index_int64 st u"
    using a(5) b(3) b(5) by auto
  ultimately show ?case by blast
qed

lemma flush_tx_OnDB_store:
  assumes "flush_tx OnDB fl w = (r, w')"
  shows "committed w' = committed w \<or>
         (\<exists>state0 state1 dirty1 w1.
            restoreState OnDB (select_err fl) (map op.userID (buff w)) w = Inr state0 \<and>
            apply_ops (buff w) (state0, {}, w\<lparr>pending := [], txLogs := [], callbacks := []\<rparr>) =
              (state1, dirty1, w1) \<and>
            point_txs (committed w') = point_txs (committed w) @ txLogs w1 \<and>
            (user_points (committed w') =
               user_points (committed w) ++ (\<lambda>u. if u \<in> dirty1 then Some (index_int64 state1 u) else None) \<or>
             upsert_err fl \<noteq> None \<and> user_points (committed w') = user_points (committed w)))"
proof (cases "begin_err fl")
  case (Some e)
  with assms show ?thesis by (auto simp: flush_tx_OnDB_unfold)
next
  case None
  have rs: "restoreState OnDB (select_err fl) (map op.userID (buff w)) (w\<lparr>pending := []\<rparr>) =
            restoreState OnDB (select_err fl) (map op.userID (buff w)) w"
    by (simp add: restoreState_def visible_def split: option.splits)
  show ?thesis
  proof (cases "restoreState OnDB (select_err fl) (map op.userID (buff w)) w")
    case (Inl e)
    with None assms rs show ?thesis by (auto simp: flush_tx_OnDB_unfold)
  next
    case (Inr state0)
    obtain state1 dirty1 w1 where a:
      "apply_ops (buff w) (state0, {}, w\<lparr>pending := [], txLogs := [], callbacks := []\<rparr>) = (state1, dirty1, w1)"
      by (metis prod_cases3)
    have c1: "committed w1 = committed w" and p1: "pending w1 = []"
      using apply_ops_world [OF a] by simp_all
    obtain r2 w2 where b: "batchInsertTxLogs OnDB (insert_err fl) w1 = (r2, w2)"
      by (cases "batchInsertTxLogs OnDB (insert_err fl) w1") auto
    show ?thesis
    proof (cases r2)
      case (Some e)
      with b have "committed w2 = committed w1"
        by (auto simp: batchInsertTxLogs_def pgctx_Exec_def split: if_splits option.splits)
      with assms None Inr rs a b Some c1 show ?thesis by (auto simp: flush_tx_OnDB_unfold)
    next
      case r2: None
      have i2: "point_txs (committed w2) = point_txs (committed w) @ txLogs w1"
        "user_points (committed w2) = user_points (committed w)" "pending w2 = []"
        using b r2 c1 p1 by (auto simp: batchInsertTxLogs_def pgctx_Exec_def split: if_splits option.splits)
      obtain r3 w3 where s: "saveDirtyState OnDB (upsert_err fl) state1 dirty1 w2 = (r3, w3)"
        by (cases "saveDirtyState OnDB (upsert_err fl) state1 dirty1 w2") auto
      have p3: "pending w3 = []" using saveDirtyState_OnDB_frame [OF s] i2(3) by simp
      have s3: "point_txs (committed w3) = point_txs (committed w2)"
        using s by (auto simp: saveDirtyState_def pgctx_Exec_def split: if_splits option.splits)
      have u3: "user_points (committed w3) =
                  user_points (committed w2) ++ (\<lambda>u. if u \<in> dirty1 then Some (index_int64 state1 u) else None) \<or>
                upsert_err fl \<noteq> None \<and> user_points (committed w3) = user_points (committed w2)"
        using s by (auto simp: saveDirtyState_def pgctx_Exec_def map_add_def split: if_splits option.splits)
      have "committed w' = committed w3"
        using assms None Inr rs a b r2 s p3
        by (auto simp: flush_tx_OnDB_unfold tx_view_nil split: option.splits)
      with i2 s3 u3 Inr a show ?thesis by auto
    qed
  qed
qed

lemma restoreState_index:
  "restoreState c fault keys w = Inr state \<Longrightarrow> u \<in> set keys \<Longrightarrow>
     index_int64 state u = index_int64 (user_points (visible c w)) u"
  by (auto simp: restoreState_def index_int64_def restrict_map_def split: if_splits option.splits)

lemma flush_tx_OnDB_consistent:
  assumes f: "flush_tx OnDB fl w = (r, w')" and up: "upsert_err fl = None"
    and n: "nonneg_balances (user_points (committed w))"
    and c: "ledger_consistent (committed w)"
  shows "ledger_consistent (committed w')"
proof -
  from flush_tx_OnDB_store [OF f] up
  consider "committed w' = committed w"
    | state0 state1 dirty1 w1 where
      "restoreState OnDB (select_err fl) (map op.userID (buff w)) w = Inr state0"
      "apply_ops (buff w) (state0, {}, w\<lparr>pending := [], txLogs := [], callbacks := []\<rparr>) = (state1, dirty1, w1)"
      "point_txs (committed w') = point_txs (committed w) @ txLogs w1"
      "user_points (committed w') =
         user_points (committed w) ++ (\<lambda>u. if u \<in> dirty1 then Some (index_int64 state1 u) else None)"
    by blast
  then show ?thesis
  proof cases
    case 1
    with c show ?thesis by simp
  next
    case 2
    have n0: "nonneg_balances state0"
      using restoreState_nonneg [OF 2(1)] n by (simp add: visible_def)
    from apply_ops_ledger [OF 2(2) n0] obtain new where
      l: "txLogs w1 = new"
         "\<forall>u. sint (index_int64 state1 u) = sint (index_int64 state0 u) + txs_sum new u"
         "dirty1 \<subseteq> op.userID ` set (buff w)"
         "\<forall>u. u \<notin> dirty1 \<longrightarrow> index_int64 state1 u = index_int64 state0 u"
      by auto
    have "ledger_sum (committed w') u = balance_of (committed w') u" for u
    proof (cases "u \<in> dirty1")
      case True
      then have "u \<in> set (map op.userID (buff w))" using l(3) by auto
      then have "index_int64 state0 u = index_int64 (user_points (committed w)) u"
        using restoreState_index [OF 2(1)] by (simp add: visible_def)
      then have "sint (index_int64 state1 u) = balance_of (committed w) u + txs_sum new u"
        using l(2) by (simp add: balance_of_def)
      moreover have "balance_of (committed w') u = sint (index_int64 state1 u)"
        using True 2(4) by (simp add: balance_of_def index_int64_def map_add_def)
      moreover have "ledger_sum (committed w') u = ledger_sum (committed w) u + txs_sum new u"
        using 2(3) l(1) by (simp add: ledger_sum_def txs_sum_append)
      ultimately show ?thesis using c by (simp add: ledger_consistent_def)
    next
      case False
      then have "index_int64 state1 u = index_int64 state0 u" using l(4) by simp
      with l(2) have z: "txs_sum new u = 0" by (metis add_cancel_right_right)
      have "balance_of (committed w') u = balance_of (committed w) u"
        using False 2(4) by (simp add: balance_of_def index_int64_def map_add_def)
      moreover have "ledger_sum (committed w') u = ledger_sum (committed w) u"
        using 2(3) l(1) z by (simp add: ledger_sum_def txs_sum_append)
      ultimately show ?thesis using c by (simp add: ledger_consistent_def)
    qed
    then show ?thesis by (simp add: ledger_consistent_def)
  qed
qed

lemma apply_op_dirty:
  "apply_op p (st, d, w) = (st', d', w') \<Longrightarrow> d \<subseteq> d' \<and> d' \<subseteq> insert (op.userID p) d"
  by (auto simp: apply_op_unfold Let_def split: if_splits)

lemma apply_ops_dirty:
  "apply_ops ps (st, d, w) = (st', d', w') \<Longrightarrow> d \<subseteq> d' \<and> d' \<subseteq> op.userID ` set ps \<union> d"
proof (induction ps arbitrary: st d w)
  case Nil
  then show ?case by simp
next
  case (Cons p ps)
  obtain st1 d1 w1 where s: "apply_op p (st, d, w) = (st1, d1, w1)"
    by (cases "apply_op p (st, d, w)") auto
  with Cons.prems have r: "apply_ops ps (st1, d1, w1) = (st', d', w')" by simp
  from Cons.IH [OF r] apply_op_dirty [OF s] show ?case by auto
qed

lemma restoreState_values:
  "restoreState c fault keys w = Inr state \<Longrightarrow>
     index_int64 state u =
       (if u \<in> set keys then index_int64 (user_points (visible c w)) u else 0)"
  by (auto simp: restoreState_def index_int64_def restrict_map_def split: if_splits option.splits)

section \<open>The claims\<close>

text \<open>
  Claim C4. Every balance stored in \<^verbatim>\<open>user_points\<close> is at least 0 after a transaction of
  either path: a call of \<^verbatim>\<open>addPoint\<close>, a sequence of such calls, a flush, and a whole run
  of the background worker each keep all stored balances non-negative (as signed 64-bit
  integers), whatever the database lets fail; the truncated tables \<^verbatim>\<open>main\<close> starts from
  have no balance at all.
\<close>

theorem committed_balances_nonneg:
  "nonneg_balances (user_points (committed w)) \<Longrightarrow>
     nonneg_balances (user_points (committed (snd (addPoint OnDB fl uid amt w)))) \<and>
     nonneg_balances (user_points (committed (addPoints OnDB cs w))) \<and>
     nonneg_balances (user_points (committed (flush OnDB fl w))) \<and>
     nonneg_balances (user_points (committed (startBgWorker OnDB es w)))"
proof (intro conjI)
  assume h: "nonneg_balances (user_points (committed w))"
  show "nonneg_balances (user_points (committed (snd (addPoint OnDB fl uid amt w))))"
    using h by (rule addPoint_OnDB_nonneg)
  show "nonneg_balances (user_points (committed (addPoints OnDB cs w)))"
    using h by (rule addPoints_OnDB_nonneg)
  show "nonneg_balances (user_points (committed (flush OnDB fl w)))"
    using h by (rule flush_OnDB_nonneg)
  have "nonneg_balances (user_points (committed (w\<lparr>buff := [], callbacks := [], txLogs := []\<rparr>)))"
    using h by simp
  then show "nonneg_balances (user_points (committed (startBgWorker OnDB es w)))"
    unfolding startBgWorker_def by (rule bgWorker_loop_nonneg)
qed

theorem committed_balances_nonneg_witness:
  "nonneg_balances (user_points (committed (init_world uuids))) \<and>
   user_points (committed (addPoints OnDB [(no_faults, ''u'', 5), (no_faults, ''u'', - 7), (no_faults, ''u'', - 5)]
      (init_world uuids))) ''u'' = Some 0 \<and>
   nonneg_balances (user_points (committed (addPoints OnDB [(no_faults, ''u'', 5), (no_faults, ''u'', - 7), (no_faults, ''u'', - 5)]
      (init_world uuids))))"
proof -
  have h: "nonneg_balances (user_points (committed (init_world uuids)))"
    by (simp add: nonneg_balances_def init_world_def)
  have e: "user_points (committed (addPoints OnDB [(no_faults, ''u'', 5), (no_faults, ''u'', - 7), (no_faults, ''u'', - 5)]
      (init_world uuids))) ''u'' = Some 0"
    by (simp add: addPoint_OnDB_unfold no_faults_def init_world_def index_int64_def Let_def word_sless_alt)
  from committed_balances_nonneg [OF h] h e show ?thesis by blast
qed

text \<open>
  Claim C8. A refresh of the snapshot that fails, at the query, at the scan of any row or at
  the end of the rows, leaves \<^verbatim>\<open>featureActiveCache.m\<close> as it was, so a reader gets the
  answer of the previous snapshot; in the refreshing goroutine a failed refresh is a turn
  of the loop that changes nothing, and a failed first refresh returns its error without
  starting the goroutine.
\<close>

theorem failed_refresh_keeps_snapshot:
  "fst (updateFeatureActiveCache r cache) \<noteq> None \<Longrightarrow>
     snd (updateFeatureActiveCache r cache) = cache \<and>
     ensureFeatureActiveWithCache (snd (updateFeatureActiveCache r cache)) feature =
       ensureFeatureActiveWithCache cache feature \<and>
     refresh_loop (After r # es) cache = refresh_loop es cache \<and>
     startUpdateFeatureActiveCache r es cache = (fst (updateFeatureActiveCache r cache), cache)"
  by (auto simp: updateFeatureActiveCache_def startUpdateFeatureActiveCache_def
      split: option.splits sum.splits)

theorem failed_refresh_keeps_snapshot_witness:
  "fst (updateFeatureActiveCache
         \<lparr>query_err = None, scans = [Inr (''f'', False), Inl (StoreError ''scan'')], rows_err = None\<rparr>
         [''f'' \<mapsto> True]) \<noteq> None \<and>
   snd (updateFeatureActiveCache
         \<lparr>query_err = None, scans = [Inr (''f'', False), Inl (StoreError ''scan'')], rows_err = None\<rparr>
         [''f'' \<mapsto> True]) = [''f'' \<mapsto> True] \<and>
   ensureFeatureActiveWithCache (refresh_loop
         [After \<lparr>query_err = None, scans = [Inr (''f'', False), Inl (StoreError ''scan'')], rows_err = None\<rparr>]
         [''f'' \<mapsto> True]) ''f'' = None"
proof -
  have h: "fst (updateFeatureActiveCache
         \<lparr>query_err = None, scans = [Inr (''f'', False), Inl (StoreError ''scan'')], rows_err = None\<rparr>
         [''f'' \<mapsto> True]) \<noteq> None"
    by (simp add: updateFeatureActiveCache_def)
  from failed_refresh_keeps_snapshot [OF h, of "''f''" "[]"] h show ?thesis
    by (simp add: ensureFeatureActiveWithCache_def index_bool_def)
qed

text \<open>
  Claim C10. The reader of the snapshot returns \<^verbatim>\<open>featureInactive\<close> exactly when the key is
  missing from the map or mapped to \<^verbatim>\<open>false\<close>; its only other result is \<^verbatim>\<open>nil\<close>; it is a
  function of the map and the key alone; and the handler of \<^verbatim>\<open>/f3\<close> never answers with an
  HTTP error.
\<close>

theorem cache_reader_only_featureInactive:
  "(ensureFeatureActiveWithCache cache feature = Some FeatureInactive
      \<longleftrightarrow> cache feature = None \<or> cache feature = Some False) \<and>
   (ensureFeatureActiveWithCache cache feature = None \<longleftrightarrow> cache feature = Some True) \<and>
   (ensureFeatureActiveWithCache cache feature = None \<or>
    ensureFeatureActiveWithCache cache feature = Some FeatureInactive) \<and>
   (\<forall>msg code. handle_f3 cache \<noteq> HttpError msg code) \<and>
   (handle_f3 cache = Write ''ok'' \<or> handle_f3 cache = Write ''feature is not active'')"
  by (auto simp: handle_f3_def ensureFeatureActiveWithCache_def index_bool_def Let_def
      split: option.splits error.splits)

theorem cache_reader_only_featureInactive_witness:
  "ensureFeatureActiveWithCache Map.empty ''f'' = Some FeatureInactive \<and>
   ensureFeatureActiveWithCache [''f'' \<mapsto> False] ''f'' = Some FeatureInactive \<and>
   ensureFeatureActiveWithCache [''f'' \<mapsto> True] ''f'' = None \<and>
   handle_f3 [''f'' \<mapsto> True] = Write ''ok''"
  using cache_reader_only_featureInactive [of Map.empty "''f''"]
    cache_reader_only_featureInactive [of "[''f'' \<mapsto> False]" "''f''"]
    cache_reader_only_featureInactive [of "[''f'' \<mapsto> True]" "''f''"]
  by (simp add: handle_f3_def ensureFeatureActiveWithCache_def index_bool_def)

text \<open>
  Claim C2, as amended. The channels of the operations being distinct (each call of
  \<^verbatim>\<open>addPointStateful\<close> makes its own), over any run of the loop, with failing flushes and
  with shutdown, no channel ever gets more than one callback; an operation the loop has
  received got exactly one callback if it has left the buffer, and none while it is still in
  the buffer (its flushes failed so far, or the loop ended first); no other channel gets a
  callback.
\<close>

theorem at_most_one_callback:
  assumes "distinct (map op.doneCh (received es))" and "sent w = []"
    and "w' = startBgWorker OnDB es w"
  shows "count_sent h w' \<le> 1 \<and>
         (\<forall>p \<in> set (received es). count_sent (op.doneCh p) w' = (if p \<in> set (buff w') then 0 else 1)) \<and>
         (h \<notin> op.doneCh ` set (received es) \<longrightarrow> count_sent h w' = 0)"
proof -
  let ?w0 = "w\<lparr>buff := [], callbacks := [], txLogs := []\<rparr>"
  have w': "w' = bgWorker_loop OnDB es ?w0" using assms(3) by (simp add: startBgWorker_def)
  have cons: "\<And>h. count_sent h w' + count_list (map op.doneCh (buff w')) h = count_list (map op.doneCh (received es)) h"
    using bgWorker_loop_conserves [of _ es ?w0] assms(2) by (simp add: w' count_sent_def)
  have le: "\<And>h. count_list (map op.doneCh (received es)) h \<le> 1"
    using assms(1) by (simp add: distinct_count_list)
  have sub: "set (buff w') \<subseteq> set (received es)"
    using bgWorker_loop_buff_received [of es ?w0] by (simp add: w')
  have a: "count_sent h w' \<le> 1" using cons [of h] le [of h] by linarith
  have b: "count_sent (op.doneCh p) w' = (if p \<in> set (buff w') then 0 else 1)" if p: "p \<in> set (received es)" for p
  proof -
    have one: "count_list (map op.doneCh (received es)) (op.doneCh p) = 1"
      using assms(1) p by (simp add: distinct_count_list)
    show ?thesis
    proof (cases "p \<in> set (buff w')")
      case True
      then have "op.doneCh p \<in> set (map op.doneCh (buff w'))" by simp
      then have "count_list (map op.doneCh (buff w')) (op.doneCh p) \<noteq> 0"
        by (simp add: count_list_0_iff)
      with cons [of "op.doneCh p"] one True show ?thesis by simp
    next
      case False
      have "op.doneCh p \<notin> set (map op.doneCh (buff w'))"
      proof
        assume "op.doneCh p \<in> set (map op.doneCh (buff w'))"
        then obtain q where q: "q \<in> set (buff w')" "op.doneCh q = op.doneCh p" by auto
        with sub have "q \<in> set (received es)" by auto
        with assms(1) p q(2) have "q = p" by (meson distinct_map inj_onD)
        with q(1) False show False by simp
      qed
      then have "count_list (map op.doneCh (buff w')) (op.doneCh p) = 0" by simp
      with cons [of "op.doneCh p"] one False show ?thesis by simp
    qed
  qed
  have c: "count_sent h w' = 0" if "h \<notin> op.doneCh ` set (received es)"
    using cons [of h] that by simp
  from a b c show ?thesis by blast
qed

theorem at_most_one_callback_witness:
  "distinct (map op.doneCh (received [OpChan p1 no_faults, OpChan p2 select_fails, TimeAfter no_faults, OpChan p3 no_faults, WorkerDone])) \<and>
   sent (init_world uuids) = [] \<and>
   count_sent 0 (startBgWorker OnDB [OpChan p1 no_faults, OpChan p2 select_fails, TimeAfter no_faults, OpChan p3 no_faults, WorkerDone] (init_world uuids)) = 1 \<and>
   count_sent 2 (startBgWorker OnDB [OpChan p1 no_faults, OpChan p2 select_fails, TimeAfter no_faults, OpChan p3 no_faults, WorkerDone] (init_world uuids)) = 0"
proof -
  let ?es = "[OpChan p1 no_faults, OpChan p2 select_fails, TimeAfter no_faults, OpChan p3 no_faults, WorkerDone]"
  have d: "distinct (map op.doneCh (received ?es))"
    by (simp add: p1_def p2_def p3_def)
  have s: "sent (init_world uuids) = []"
    by (simp add: init_world_def)
  have b: "buff (startBgWorker OnDB ?es (init_world uuids)) = [p3]"
    by code_simp
  have r: "p1 \<in> set (received ?es)" "p3 \<in> set (received ?es)" by simp_all
  have n: "p1 \<noteq> p3" by (simp add: p1_def p3_def)
  from at_most_one_callback [OF d s refl, of 0] r b n d s show ?thesis
    by (simp add: p1_def p3_def)
qed

text \<open>
  Claim C2 as stated fails: an operation received before a failed flush and the shutdown
  gets no callback at all.
\<close>

theorem no_callback_counterexample:
  "p1 \<in> set (received [OpChan p1 no_faults, TimeAfter select_fails, WorkerDone]) \<and>
   count_sent (op.doneCh p1) (startBgWorker OnDB [OpChan p1 no_faults, TimeAfter select_fails, WorkerDone] (init_world uuids)) = 0"
  by code_simp

text \<open>
  Claim C1 as stated fails: after a flush whose query fails, the operation of the batch has
  received nothing and is still in the buffer.
\<close>

theorem failed_flush_counterexample:
  "fst (flush_tx OnDB select_fails ((init_world uuids)\<lparr>buff := [p1]\<rparr>)) = Some (StoreError ''connection lost'') \<and>
   sent (flush OnDB select_fails ((init_world uuids)\<lparr>buff := [p1]\<rparr>)) = [] \<and>
   buff (flush OnDB select_fails ((init_world uuids)\<lparr>buff := [p1]\<rparr>)) = [p1]"
  by code_simp

text \<open>
  Claim C1, as amended. When the transaction of a flush fails, \<^verbatim>\<open>flush\<close> logs the error and
  returns: no callback is sent on any channel and the buffer keeps all its operations, in
  order; the loop goes on, and the next flush whose transaction succeeds sends one callback
  to each of these operations and empties the buffer. The code has no callback for a
  failure of the store.
\<close>

theorem failed_flush_keeps_buffer:
  "fst (flush_tx OnDB fl w) \<noteq> None \<Longrightarrow>
     sent (flush OnDB fl w) = sent w \<and>
     buff (flush OnDB fl w) = buff w \<and>
     bgWorker_loop OnDB (TimeAfter fl # es) w = bgWorker_loop OnDB es (flush OnDB fl w) \<and>
     (fst (flush_tx OnDB fl' (flush OnDB fl w)) = None \<longrightarrow>
        buff (flush OnDB fl' (flush OnDB fl w)) = [] \<and>
        map fst (sent (flush OnDB fl' (flush OnDB fl w))) = map fst (sent w) @ map op.doneCh (buff w))"
proof -
  assume f: "fst (flush_tx OnDB fl w) \<noteq> None"
  let ?w1 = "flush OnDB fl w"
  have k: "buff ?w1 = buff w" "sent ?w1 = sent w"
    using flush_OnDB_failed [OF f] by simp_all
  have r: "buff (flush OnDB fl' ?w1) = [] \<and>
           map fst (sent (flush OnDB fl' ?w1)) = map fst (sent w) @ map op.doneCh (buff w)"
    if s: "fst (flush_tx OnDB fl' ?w1) = None"
  proof -
    obtain w2 where t: "flush_tx OnDB fl' ?w1 = (None, w2)"
      using s by (cases "flush_tx OnDB fl' ?w1") auto
    have len: "length (callbacks w2) = length (buff ?w1)"
      using flush_tx_OnDB_length [OF t] .
    from flush_OnDB_succeeded [OF t] len k show ?thesis
      by (simp add: map_fst_zip_same_length)
  qed
  from k r show ?thesis by simp
qed

theorem failed_flush_keeps_buffer_witness:
  "fst (flush_tx OnDB select_fails ((init_world uuids)\<lparr>buff := [p1, p2]\<rparr>)) \<noteq> None \<and>
   buff (flush OnDB select_fails ((init_world uuids)\<lparr>buff := [p1, p2]\<rparr>)) = [p1, p2] \<and>
   sent (flush OnDB select_fails ((init_world uuids)\<lparr>buff := [p1, p2]\<rparr>)) = [] \<and>
   map fst (sent (flush OnDB no_faults (flush OnDB select_fails ((init_world uuids)\<lparr>buff := [p1, p2]\<rparr>)))) = [0, 1]"
proof -
  let ?w = "(init_world uuids)\<lparr>buff := [p1, p2]\<rparr>"
  have h: "fst (flush_tx OnDB select_fails ?w) \<noteq> None"
    by code_simp
  have b: "buff (flush OnDB select_fails ?w) = [p1, p2]" "sent (flush OnDB select_fails ?w) = []"
    using failed_flush_keeps_buffer [OF h, of "[]" no_faults] by (simp_all add: init_world_def)
  have g: "fst (flush_tx OnDB no_faults (flush OnDB select_fails ?w)) = None"
    by code_simp
  from failed_flush_keeps_buffer [OF h, of "[]" no_faults] g h b show ?thesis
    by (simp add: init_world_def p1_def p2_def)
qed

text \<open>
  Claim C3. The loop of a flush takes the operations in the order of the buffer: on the
  empty list it changes nothing, and the result for \<open>ps @ p # qs\<close> is that of \<open>qs\<close> run on
  what \<open>p\<close> makes of the result of \<open>ps\<close>. With \<open>new = state[user] + amount\<close> (64-bit,
  wrapping), the step for \<open>p\<close> is: if \<open>new < 0\<close>, add an \<^verbatim>\<open>insufficient balance\<close> callback
  and change neither the state, the dirty set nor the ledger rows; otherwise store \<open>new\<close>,
  mark the user dirty, append the one row \<open>(fresh id, user, amount)\<close> and add a \<^verbatim>\<open>nil\<close>
  callback. The callback stays at the operation's position, and a later operation on the
  same user reads \<open>new\<close>. A flush whose transaction succeeds has run this loop from the
  balances read from the store (0 for a user without a row), has inserted exactly the rows
  of the loop, has written exactly the balances of the dirty users, sends the callbacks in
  the order of the buffer and empties the buffer.
\<close>

theorem ops_applied_in_arrival_order:
  assumes "apply_ops ps acc = (state, dirty, w)"
    and "new = index_int64 state (op.userID p) + op.amount p"
  shows "apply_ops [] acc = acc \<and>
         apply_op p (state, dirty, w) =
           (if new <s 0
            then (state, dirty,
                  w\<lparr>callbacks := callbacks w @ [\<lparr>err = Some (ErrorsNew ''insufficient balance'')\<rparr>]\<rparr>)
            else (state(op.userID p \<mapsto> new), insert (op.userID p) dirty,
                  w\<lparr>uuid_cnt := Suc (uuid_cnt w),
                    txLogs := txLogs w @
                      [\<lparr>txID = uuid_src w (uuid_cnt w), userID = op.userID p, amount = op.amount p\<rparr>],
                    callbacks := callbacks w @ [\<lparr>err = None\<rparr>]\<rparr>)) \<and>
         apply_ops (ps @ [p]) acc = apply_op p (state, dirty, w) \<and>
         apply_ops (ps @ p # qs) acc =
           apply_ops qs
             (if new <s 0
              then (state, dirty,
                    w\<lparr>callbacks := callbacks w @ [\<lparr>err = Some (ErrorsNew ''insufficient balance'')\<rparr>]\<rparr>)
              else (state(op.userID p \<mapsto> new), insert (op.userID p) dirty,
                    w\<lparr>uuid_cnt := Suc (uuid_cnt w),
                      txLogs := txLogs w @
                        [\<lparr>txID = uuid_src w (uuid_cnt w), userID = op.userID p, amount = op.amount p\<rparr>],
                      callbacks := callbacks w @ [\<lparr>err = None\<rparr>]\<rparr>)) \<and>
         (\<forall>state' dirty' w'. apply_ops (ps @ p # qs) acc = (state', dirty', w') \<longrightarrow>
            callbacks w' ! length (callbacks w) =
              \<lparr>err = if new <s 0 then Some (ErrorsNew ''insufficient balance'') else None\<rparr> \<and>
            (\<not> new <s 0 \<and> (\<forall>q \<in> set qs. op.userID q \<noteq> op.userID p) \<longrightarrow>
               index_int64 state' (op.userID p) = new)) \<and>
         (\<forall>fl w0 w0'. flush_tx OnDB fl w0 = (None, w0') \<longrightarrow>
            (\<exists>state0 state1 dirty1 w1.
               restoreState OnDB (select_err fl) (map op.userID (buff w0)) w0 = Inr state0 \<and>
               (\<forall>u. index_int64 state0 u =
                      (if u \<in> op.userID ` set (buff w0)
                       then index_int64 (user_points (committed w0)) u else 0)) \<and>
               apply_ops (buff w0) (state0, {}, w0\<lparr>pending := [], txLogs := [], callbacks := []\<rparr>) =
                 (state1, dirty1, w1) \<and>
               callbacks w0' = callbacks w1 \<and>
               point_txs (committed w0') = point_txs (committed w0) @ txLogs w1 \<and>
               user_points (committed w0') =
                 user_points (committed w0) ++
                   (\<lambda>u. if u \<in> dirty1 then Some (index_int64 state1 u) else None) \<and>
               sent (flush OnDB fl w0) = sent w0 @ zip (map op.doneCh (buff w0)) (callbacks w1) \<and>
               length (callbacks w1) = length (buff w0) \<and>
               buff (flush OnDB fl w0) = []))"
proof (intro conjI allI impI)
  show "apply_ops [] acc = acc" by simp
next
  show "apply_op p (state, dirty, w) =
           (if new <s 0
            then (state, dirty,
                  w\<lparr>callbacks := callbacks w @ [\<lparr>err = Some (ErrorsNew ''insufficient balance'')\<rparr>]\<rparr>)
            else (state(op.userID p \<mapsto> new), insert (op.userID p) dirty,
                  w\<lparr>uuid_cnt := Suc (uuid_cnt w),
                    txLogs := txLogs w @
                      [\<lparr>txID = uuid_src w (uuid_cnt w), userID = op.userID p, amount = op.amount p\<rparr>],
                    callbacks := callbacks w @ [\<lparr>err = None\<rparr>]\<rparr>))"
    using assms(2) by (simp add: apply_op_unfold Let_def)
next
  show "apply_ops (ps @ [p]) acc = apply_op p (state, dirty, w)"
    using assms(1) by (simp add: apply_ops_append)
next
  show eq: "apply_ops (ps @ p # qs) acc =
           apply_ops qs
             (if new <s 0
              then (state, dirty,
                    w\<lparr>callbacks := callbacks w @ [\<lparr>err = Some (ErrorsNew ''insufficient balance'')\<rparr>]\<rparr>)
              else (state(op.userID p \<mapsto> new), insert (op.userID p) dirty,
                    w\<lparr>uuid_cnt := Suc (uuid_cnt w),
                      txLogs := txLogs w @
                        [\<lparr>txID = uuid_src w (uuid_cnt w), userID = op.userID p, amount = op.amount p\<rparr>],
                      callbacks := callbacks w @ [\<lparr>err = None\<rparr>]\<rparr>))"
    using assms by (simp add: apply_ops_split Let_def)
next
  fix state' dirty' w'
  assume r: "apply_ops (ps @ p # qs) acc = (state', dirty', w')"
  show "callbacks w' ! length (callbacks w) =
          \<lparr>err = if new <s 0 then Some (ErrorsNew ''insufficient balance'') else None\<rparr>"
    using apply_ops_callback_at [OF assms(1) r] assms(2) by simp
next
  fix state' dirty' w'
  assume r: "apply_ops (ps @ p # qs) acc = (state', dirty', w')"
    and a: "\<not> new <s 0 \<and> (\<forall>q \<in> set qs. op.userID q \<noteq> op.userID p)"
  obtain st1 d1 w1 where s: "apply_op p (state, dirty, w) = (st1, d1, w1)"
    by (cases "apply_op p (state, dirty, w)") auto
  have st1: "index_int64 st1 (op.userID p) = new"
    using s a assms(2) by (auto simp: apply_op_unfold Let_def index_int64_def)
  have "apply_ops qs (st1, d1, w1) = (state', dirty', w')"
    using r s assms(1) by (simp add: apply_ops_append)
  from apply_ops_other_users [OF this, of "op.userID p"] a st1
  show "index_int64 state' (op.userID p) = new" by simp
next
  fix fl w0 w0'
  assume f: "flush_tx OnDB fl w0 = (None, w0')"
  from flush_tx_OnDB_success [OF f] obtain state0 state1 dirty1 w1 where
    x: "restoreState OnDB (select_err fl) (map op.userID (buff w0)) w0 = Inr state0"
       "apply_ops (buff w0) (state0, {}, w0\<lparr>pending := [], txLogs := [], callbacks := []\<rparr>) = (state1, dirty1, w1)"
       "callbacks w0' = callbacks w1"
       "point_txs (committed w0') = point_txs (committed w0) @ txLogs w1"
       "user_points (committed w0') =
          user_points (committed w0) ++ (\<lambda>u. if u \<in> dirty1 then Some (index_int64 state1 u) else None)"
    by blast
  have s: "sent (flush OnDB fl w0) = sent w0 @ zip (map op.doneCh (buff w0)) (callbacks w1)"
    using flush_OnDB_succeeded [OF f] x(3) by simp
  have l: "length (callbacks w1) = length (buff w0)"
    using flush_tx_OnDB_length [OF f] x(3) by simp
  have v: "\<forall>u. index_int64 state0 u =
                      (if u \<in> op.userID ` set (buff w0)
                       then index_int64 (user_points (committed w0)) u else 0)"
    using restoreState_values [OF x(1)] by (simp add: visible_def)
  have e: "buff (flush OnDB fl w0) = []"
    using flush_OnDB_succeeded [OF f] by simp
  from x s l v e
  show "\<exists>state0 state1 dirty1 w1.
               restoreState OnDB (select_err fl) (map op.userID (buff w0)) w0 = Inr state0 \<and>
               (\<forall>u. index_int64 state0 u =
                      (if u \<in> op.userID ` set (buff w0)
                       then index_int64 (user_points (committed w0)) u else 0)) \<and>
               apply_ops (buff w0) (state0, {}, w0\<lparr>pending := [], txLogs := [], callbacks := []\<rparr>) =
                 (state1, dirty1, w1) \<and>
               callbacks w0' = callbacks w1 \<and>
               point_txs (committed w0') = point_txs (committed w0) @ txLogs w1 \<and>
               user_points (committed w0') =
                 user_points (committed w0) ++
                   (\<lambda>u. if u \<in> dirty1 then Some (index_int64 state1 u) else None) \<and>
               sent (flush OnDB fl w0) = sent w0 @ zip (map op.doneCh (buff w0)) (callbacks w1) \<and>
               length (callbacks w1) = length (buff w0) \<and>
               buff (flush OnDB fl w0) = []"
    by blast
qed

theorem ops_applied_in_arrival_order_witness:
  "fst (snd (apply_op p1 (Map.empty, {}, init_world uuids))) = {''u''} \<and>
   txLogs (snd (snd (apply_op p1 (Map.empty, {}, init_world uuids)))) =
     [\<lparr>txID = uuids 0, userID = ''u'', amount = 5\<rparr>] \<and>
   callbacks (snd (snd (apply_ops [p1, p2, p3] (Map.empty, {}, init_world uuids)))) ! 1 =
     \<lparr>err = Some (ErrorsNew ''insufficient balance'')\<rparr> \<and>
   index_int64 (fst (apply_ops [p1, p2, p3] (Map.empty, {}, init_world uuids))) ''u'' = 0 \<and>
   fst (snd (apply_ops [p1, p2, p3] (Map.empty, {}, init_world uuids))) = {''u''} \<and>
   txLogs (snd (snd (apply_ops [p1, p2, p3] (Map.empty, {}, init_world uuids)))) =
     [\<lparr>txID = uuids 0, userID = ''u'', amount = 5\<rparr>, \<lparr>txID = uuids 1, userID = ''u'', amount = - 5\<rparr>] \<and>
   sent (flush OnDB no_faults ((init_world uuids)\<lparr>buff := [p1, p2, p3]\<rparr>)) =
     [(0, \<lparr>err = None\<rparr>), (1, \<lparr>err = Some (ErrorsNew ''insufficient balance'')\<rparr>), (2, \<lparr>err = None\<rparr>)] \<and>
   point_txs (committed (flush OnDB no_faults ((init_world uuids)\<lparr>buff := [p1, p2, p3]\<rparr>))) =
     [\<lparr>txID = uuids 0, userID = ''u'', amount = 5\<rparr>, \<lparr>txID = uuids 1, userID = ''u'', amount = - 5\<rparr>] \<and>
   user_points (committed (flush OnDB no_faults ((init_world uuids)\<lparr>buff := [p1, p2, p3]\<rparr>))) ''u'' = Some 0"
proof -
  let ?acc = "(Map.empty :: string \<rightharpoonup> int64, {} :: string set, init_world uuids)"
  let ?r1 = "apply_ops [p1] ?acc"
  let ?r2 = "apply_ops [p1, p2] ?acc"
  let ?r3 = "apply_ops [p1, p2, p3] ?acc"
  have a1: "apply_ops [p1] ?acc = (fst ?r1, fst (snd ?r1), snd (snd ?r1))" by simp
  have a2: "apply_ops [p1, p2] ?acc = (fst ?r2, fst (snd ?r2), snd (snd ?r2))" by simp
  have a3: "apply_ops ([p1] @ p2 # [p3]) ?acc = (fst ?r3, fst (snd ?r3), snd (snd ?r3))"
    "apply_ops ([p1, p2] @ p3 # []) ?acc = (fst ?r3, fst (snd ?r3), snd (snd ?r3))" by simp_all
  have v1: "index_int64 (fst ?r1) (op.userID p2) + op.amount p2 <s 0"
    "length (callbacks (snd (snd ?r1))) = 1" by code_simp+
  have v2: "\<not> index_int64 (fst ?r2) (op.userID p3) + op.amount p3 <s 0"
    "index_int64 (fst ?r2) ''u'' + op.amount p3 = 0" "op.userID p3 = ''u''" by code_simp+
  have "\<forall>state' dirty' w'. apply_ops ([p1] @ p2 # [p3]) ?acc = (state', dirty', w') \<longrightarrow>
          callbacks w' ! length (callbacks (snd (snd ?r1))) =
            \<lparr>err = if index_int64 (fst ?r1) (op.userID p2) + op.amount p2 <s 0
                   then Some (ErrorsNew ''insufficient balance'') else None\<rparr>"
    using ops_applied_in_arrival_order [OF a1 refl, of p2 "[p3]"] by blast
  with a3(1) have "callbacks (snd (snd ?r3)) ! length (callbacks (snd (snd ?r1))) =
            \<lparr>err = if index_int64 (fst ?r1) (op.userID p2) + op.amount p2 <s 0
                   then Some (ErrorsNew ''insufficient balance'') else None\<rparr>"
    by blast
  then have c: "callbacks (snd (snd ?r3)) ! 1 = \<lparr>err = Some (ErrorsNew ''insufficient balance'')\<rparr>"
    unfolding v1(2) using v1(1) by (simp only: if_True)
  note t = ops_applied_in_arrival_order [OF a2 refl, of p3 "[]", THEN conjunct2, THEN conjunct2,
      THEN conjunct2, THEN conjunct2, THEN conjunct1, rule_format, OF a3(2), THEN conjunct2]
  have "\<not> index_int64 (fst ?r2) (op.userID p3) + op.amount p3 <s 0 \<and>
        (\<forall>q \<in> set []. op.userID q \<noteq> op.userID p3)"
    using v2(1) by simp
  with t have "index_int64 (fst ?r3) (op.userID p3) = index_int64 (fst ?r2) (op.userID p3) + op.amount p3"
    by (rule mp)
  then have i: "index_int64 (fst ?r3) ''u'' = 0"
    unfolding v2(3) v2(2) .
  have a0: "apply_ops [] ?acc = (Map.empty, {}, init_world uuids)" by simp
  have n1: "\<not> index_int64 Map.empty (op.userID p1) + op.amount p1 <s 0"
    "index_int64 Map.empty (op.userID p1) + op.amount p1 = 5" "op.userID p1 = ''u''" "op.amount p1 = 5"
    by code_simp+
  note t1 = ops_applied_in_arrival_order [OF a0 refl, of p1 "[]", THEN conjunct2, THEN conjunct1]
  have d1: "fst (snd (apply_op p1 ?acc)) = {''u''}"
    unfolding t1 using n1 by simp
  have l1: "txLogs (snd (snd (apply_op p1 ?acc))) = [\<lparr>txID = uuids 0, userID = ''u'', amount = 5\<rparr>]"
    unfolding t1 using n1 by (simp add: init_world_def)
  have d3: "fst (snd ?r3) = {''u''}" by code_simp
  have l3: "txLogs (snd (snd ?r3)) =
     [\<lparr>txID = uuids 0, userID = ''u'', amount = 5\<rparr>, \<lparr>txID = uuids 1, userID = ''u'', amount = - 5\<rparr>]"
    by code_simp
  have s: "sent (flush OnDB no_faults ((init_world uuids)\<lparr>buff := [p1, p2, p3]\<rparr>)) =
     [(0, \<lparr>err = None\<rparr>), (1, \<lparr>err = Some (ErrorsNew ''insufficient balance'')\<rparr>), (2, \<lparr>err = None\<rparr>)]"
    by code_simp
  have pt: "point_txs (committed (flush OnDB no_faults ((init_world uuids)\<lparr>buff := [p1, p2, p3]\<rparr>))) =
     [\<lparr>txID = uuids 0, userID = ''u'', amount = 5\<rparr>, \<lparr>txID = uuids 1, userID = ''u'', amount = - 5\<rparr>]"
    by code_simp
  have up: "user_points (committed (flush OnDB no_faults ((init_world uuids)\<lparr>buff := [p1, p2, p3]\<rparr>))) ''u'' = Some 0"
    by code_simp
  from d1 l1 c i d3 l3 s pt up show ?thesis by blast
qed

text \<open>
  Claim C6. A user without a row in \<^verbatim>\<open>user_points\<close> is missing from the map that
  \<^verbatim>\<open>restoreState\<close> returns and so reads as balance 0. Wherever in the buffer the first
  operation of such a user stands, the flush computes it against 0: its callback, which is
  the one sent to its channel, is decided by \<open>0 + amount\<close> alone, and when the buffer has no
  later operation of that user the flush leaves the user without a row if the operation was
  rejected and with the balance \<open>0 + amount\<close> if it was accepted.
\<close>

theorem new_user_starts_at_zero:
  assumes "user_points (committed w) uid = None"
  shows "(restoreState OnDB fault keys w = Inr state \<longrightarrow> state uid = None \<and> index_int64 state uid = 0) \<and>
         (buff w = ps @ p # qs \<and> op.userID p = uid \<and> (\<forall>q \<in> set ps. op.userID q \<noteq> uid) \<and>
          flush_tx OnDB fl w = (None, w') \<longrightarrow>
            callbacks w' ! length ps =
              \<lparr>err = if 0 + op.amount p <s 0 then Some (ErrorsNew ''insufficient balance'') else None\<rparr> \<and>
            sent (flush OnDB fl w) ! (length (sent w) + length ps) =
              (op.doneCh p,
               \<lparr>err = if 0 + op.amount p <s 0 then Some (ErrorsNew ''insufficient balance'') else None\<rparr>) \<and>
            ((\<forall>q \<in> set qs. op.userID q \<noteq> uid) \<longrightarrow>
               user_points (committed w') uid =
                 (if 0 + op.amount p <s 0 then None else Some (0 + op.amount p))))"
proof (intro conjI impI)
  assume r: "restoreState OnDB fault keys w = Inr state"
  from r assms show "state uid = None"
    by (auto simp: restoreState_def visible_def restrict_map_def split: if_splits option.splits)
  from restoreState_missing [OF r] assms show "index_int64 state uid = 0"
    by (simp add: visible_def)
next
  assume h: "buff w = ps @ p # qs \<and> op.userID p = uid \<and> (\<forall>q \<in> set ps. op.userID q \<noteq> uid) \<and>
          flush_tx OnDB fl w = (None, w')"
  then have b: "buff w = ps @ p # qs" and u: "op.userID p = uid"
    and o: "\<forall>q \<in> set ps. op.userID q \<noteq> uid" and f: "flush_tx OnDB fl w = (None, w')"
    by simp_all
  have i: "length ps < length (buff w)" using b by simp
  have tk: "take (length ps) (buff w) = ps" and nth: "buff w ! length ps = p"
    using b by simp_all
  from flush_tx_OnDB_callback_at [OF f i] obtain state0 state dirty w1 where
    x: "restoreState OnDB (select_err fl) (map op.userID (buff w)) w = Inr state0"
       "apply_ops ps (state0, {}, w\<lparr>pending := [], txLogs := [], callbacks := []\<rparr>) = (state, dirty, w1)"
       "callbacks w' ! length ps =
             \<lparr>err = if index_int64 state (op.userID p) + op.amount p <s 0
                    then Some (ErrorsNew ''insufficient balance'') else None\<rparr>"
    unfolding tk nth by blast
  have z0: "index_int64 state0 uid = 0"
    using restoreState_missing [OF x(1)] assms by (simp add: visible_def)
  have z: "index_int64 state uid = 0"
    using apply_ops_other_users [OF x(2) o] z0 by simp
  show c: "callbacks w' ! length ps =
              \<lparr>err = if 0 + op.amount p <s 0 then Some (ErrorsNew ''insufficient balance'') else None\<rparr>"
    using x(3) u z by simp
  have len: "length (callbacks w') = length (buff w)"
    using flush_tx_OnDB_length [OF f] .
  have "sent (flush OnDB fl w) = sent w @ zip (map op.doneCh (buff w)) (callbacks w')"
    using flush_OnDB_succeeded [OF f] by simp
  then have "sent (flush OnDB fl w) ! (length (sent w) + length ps) =
             zip (map op.doneCh (buff w)) (callbacks w') ! length ps"
    by simp
  also have "\<dots> = (op.doneCh (buff w ! length ps), callbacks w' ! length ps)"
    using i len by simp
  finally show "sent (flush OnDB fl w) ! (length (sent w) + length ps) =
              (op.doneCh p,
               \<lparr>err = if 0 + op.amount p <s 0 then Some (ErrorsNew ''insufficient balance'') else None\<rparr>)"
    using c nth by simp
  assume l: "\<forall>q \<in> set qs. op.userID q \<noteq> uid"
  from flush_tx_OnDB_success [OF f] x(1) obtain state1 dirty1 w2 where
    y: "apply_ops (buff w) (state0, {}, w\<lparr>pending := [], txLogs := [], callbacks := []\<rparr>) = (state1, dirty1, w2)"
       "user_points (committed w') =
          user_points (committed w) ++ (\<lambda>u. if u \<in> dirty1 then Some (index_int64 state1 u) else None)"
    by auto
  obtain st2 d2 w3 where s: "apply_op p (state, dirty, w1) = (st2, d2, w3)"
    by (cases "apply_op p (state, dirty, w1)") auto
  have t: "apply_ops qs (st2, d2, w3) = (state1, dirty1, w2)"
    using y(1) b x(2) s by (simp add: apply_ops_append)
  have nd: "uid \<notin> dirty" using apply_ops_dirty [OF x(2)] o by auto
  have d1: "d2 \<subseteq> dirty1" "dirty1 \<subseteq> op.userID ` set qs \<union> d2"
    using apply_ops_dirty [OF t] by simp_all
  have k: "index_int64 state1 uid = index_int64 st2 uid"
    using apply_ops_other_users [OF t l] .
  show "user_points (committed w') uid =
                 (if 0 + op.amount p <s 0 then None else Some (0 + op.amount p))"
  proof (cases "0 + op.amount p <s 0")
    case True
    with s u z have "d2 = dirty" by (auto simp: apply_op_unfold Let_def)
    with nd d1(2) l have "uid \<notin> dirty1" by auto
    with y(2) assms True show ?thesis by (simp add: map_add_def)
  next
    case False
    with s u z have "d2 = insert uid dirty" "st2 = state(uid \<mapsto> 0 + op.amount p)"
      by (auto simp: apply_op_unfold Let_def)
    with d1(1) k have "uid \<in> dirty1" "index_int64 state1 uid = 0 + op.amount p"
      by (auto simp: index_int64_def)
    with y(2) False show ?thesis by (simp add: map_add_def)
  qed
qed


theorem new_user_starts_at_zero_witness:
  "user_points (committed ((init_world uuids)\<lparr>buff := [p4, p2]\<rparr>)) ''u'' = None \<and>
   op.userID p4 \<noteq> ''u'' \<and>
   callbacks (snd (flush_tx OnDB no_faults ((init_world uuids)\<lparr>buff := [p4, p2]\<rparr>))) ! 1 =
     \<lparr>err = Some (ErrorsNew ''insufficient balance'')\<rparr> \<and>
   sent (flush OnDB no_faults ((init_world uuids)\<lparr>buff := [p4, p2]\<rparr>)) ! 1 =
     (1, \<lparr>err = Some (ErrorsNew ''insufficient balance'')\<rparr>) \<and>
   user_points (committed (snd (flush_tx OnDB no_faults ((init_world uuids)\<lparr>buff := [p4, p2]\<rparr>)))) ''u'' = None \<and>
   user_points (committed (snd (flush_tx OnDB no_faults ((init_world uuids)\<lparr>buff := [p4, p1]\<rparr>)))) ''u'' = Some 5 \<and>
   user_points (committed (snd (flush_tx OnDB no_faults ((init_world uuids)\<lparr>buff := [p4, p1]\<rparr>)))) ''v'' = Some 10"
proof -
  let ?w = "(init_world uuids)\<lparr>buff := [p4, p2]\<rparr>"
  let ?v = "(init_world uuids)\<lparr>buff := [p4, p1]\<rparr>"
  have h: "user_points (committed ?w) ''u'' = None" "user_points (committed ?v) ''u'' = None"
    by (simp_all add: init_world_def)
  have o: "\<forall>q \<in> set [p4]. op.userID q \<noteq> ''u''" by (simp add: p4_def)
  have "fst (flush_tx OnDB no_faults ?w) = None" by code_simp
  then have fw: "flush_tx OnDB no_faults ?w = (None, snd (flush_tx OnDB no_faults ?w))"
    by (metis prod.collapse)
  have "fst (flush_tx OnDB no_faults ?v) = None" by code_simp
  then have fv: "flush_tx OnDB no_faults ?v = (None, snd (flush_tx OnDB no_faults ?v))"
    by (metis prod.collapse)
  have bw: "buff ?w = [p4] @ p2 # []" and bv: "buff ?v = [p4] @ p1 # []" by simp_all
  have u2: "op.userID p2 = ''u''" and u1: "op.userID p1 = ''u''" by (simp_all add: p2_def p1_def)
  from bw u2 o fw have hw: "buff ?w = [p4] @ p2 # [] \<and> op.userID p2 = ''u'' \<and>
      (\<forall>q \<in> set [p4]. op.userID q \<noteq> ''u'') \<and>
      flush_tx OnDB no_faults ?w = (None, snd (flush_tx OnDB no_faults ?w))" by blast
  from bv u1 o fv have hv: "buff ?v = [p4] @ p1 # [] \<and> op.userID p1 = ''u'' \<and>
      (\<forall>q \<in> set [p4]. op.userID q \<noteq> ''u'') \<and>
      flush_tx OnDB no_faults ?v = (None, snd (flush_tx OnDB no_faults ?v))" by blast
  note tw = new_user_starts_at_zero [OF h(1), THEN conjunct2, rule_format, OF hw]
  note tv = new_user_starts_at_zero [OF h(2), THEN conjunct2, rule_format, OF hv]
  have a2: "0 + op.amount p2 <s 0" and a1: "\<not> 0 + op.amount p1 <s 0" and v1: "0 + op.amount p1 = 5"
    by code_simp+
  have e: "\<forall>q \<in> set []. op.userID q \<noteq> ''u''" by simp
  have c1: "callbacks (snd (flush_tx OnDB no_faults ?w)) ! 1 = \<lparr>err = Some (ErrorsNew ''insufficient balance'')\<rparr>"
    using tw [THEN conjunct1] a2 by simp
  have c2: "sent (flush OnDB no_faults ?w) ! 1 = (1, \<lparr>err = Some (ErrorsNew ''insufficient balance'')\<rparr>)"
    using tw [THEN conjunct2, THEN conjunct1] a2 by (simp add: init_world_def p2_def)
  have c3: "user_points (committed (snd (flush_tx OnDB no_faults ?w))) ''u'' = None"
    using tw [THEN conjunct2, THEN conjunct2] e a2 by simp
  have c4: "user_points (committed (snd (flush_tx OnDB no_faults ?v))) ''u'' = Some 5"
    using tv [THEN conjunct2, THEN conjunct2] e a1 v1 by simp
  have c5: "user_points (committed (snd (flush_tx OnDB no_faults ?v))) ''v'' = Some 10"
    by code_simp
  have o': "op.userID p4 \<noteq> ''u''" by (simp add: p4_def)
  from h(1) o' c1 c2 c3 c4 c5 show ?thesis by blast
qed



text \<open>
  Claim C5 fails on the stateful path. The body that \<^verbatim>\<open>flush\<close> gives to \<^verbatim>\<open>pgctx.RunInTx\<close>
  does not use the context of the transaction: the helpers run the bulk insert and the bulk
  upsert with the context of \<^verbatim>\<open>startBgWorker\<close>, so each commits by itself. From the empty
  tables, a flush of one credit of 5 whose insert succeeds and whose upsert fails leaves a
  ledger row of 5 and no balance; the buffer being kept, the next flush applies the
  operation again, and the ledger then sums to 10 against a balance of 5. The stateless
  path, which runs its statements with the context of the transaction, keeps the invariant
  (\<open>addPoint_OnDB_consistent\<close>), and so does a flush whose upsert does not fail
  (\<open>flush_tx_OnDB_consistent\<close>).
\<close>

theorem failed_upsert_breaks_ledger_consistency:
  "ledger_consistent (committed ((init_world uuids)\<lparr>buff := [p1]\<rparr>)) \<and>
   fst (flush_tx OnDB upsert_fails ((init_world uuids)\<lparr>buff := [p1]\<rparr>)) = Some (StoreError ''connection lost'') \<and>
   ledger_sum (committed (flush OnDB upsert_fails ((init_world uuids)\<lparr>buff := [p1]\<rparr>))) ''u'' = 5 \<and>
   balance_of (committed (flush OnDB upsert_fails ((init_world uuids)\<lparr>buff := [p1]\<rparr>))) ''u'' = 0 \<and>
   \<not> ledger_consistent (committed (flush OnDB upsert_fails ((init_world uuids)\<lparr>buff := [p1]\<rparr>))) \<and>
   ledger_sum (committed (flush OnDB no_faults (flush OnDB upsert_fails ((init_world uuids)\<lparr>buff := [p1]\<rparr>)))) ''u'' = 10 \<and>
   balance_of (committed (flush OnDB no_faults (flush OnDB upsert_fails ((init_world uuids)\<lparr>buff := [p1]\<rparr>)))) ''u'' = 5"
proof -
  let ?w = "(init_world uuids)\<lparr>buff := [p1]\<rparr>"
  have a: "ledger_consistent (committed ?w)"
    by (simp add: ledger_consistent_def ledger_sum_def balance_of_def txs_sum_def index_int64_def init_world_def)
  have b: "fst (flush_tx OnDB upsert_fails ?w) = Some (StoreError ''connection lost'')" by code_simp
  have c: "ledger_sum (committed (flush OnDB upsert_fails ?w)) ''u'' = 5" by code_simp
  have d: "balance_of (committed (flush OnDB upsert_fails ?w)) ''u'' = 0" by code_simp
  have e: "\<not> ledger_consistent (committed (flush OnDB upsert_fails ?w))"
  proof
    assume "ledger_consistent (committed (flush OnDB upsert_fails ?w))"
    then have "ledger_sum (committed (flush OnDB upsert_fails ?w)) ''u'' =
               balance_of (committed (flush OnDB upsert_fails ?w)) ''u''"
      unfolding ledger_consistent_def by (rule spec)
    with c d show False by simp
  qed
  have g: "ledger_sum (committed (flush OnDB no_faults (flush OnDB upsert_fails ?w))) ''u'' = 10" by code_simp
  have h: "balance_of (committed (flush OnDB no_faults (flush OnDB upsert_fails ?w))) ''u'' = 5" by code_simp
  from a b c d e g h show ?thesis by blast
qed

end
